theory Spec2Isabelle
  imports Complex_Main "HOL-Library.Sublist" "HOL-Library.AList"
begin

section \<open>Python strings\<close>

text \<open>
  The two scripts \<^verbatim>\<open>conf_jour_outputs.py\<close> and \<^verbatim>\<open>nust_authors.py\<close> harvest
  OpenAlex records into SQLite.  Python \<^verbatim>\<open>str\<close> values are modelled as \<^typ>\<open>string\<close>, each
  \<^typ>\<open>char\<close> read as one code point in the range U+0000 .. U+00FF.  Text outside that
  range is excluded by the type.

  \<^verbatim>\<open>str.lower()\<close> on this range maps A..Z and the capital letters U+00C0 .. U+00DE
  (except the multiplication sign U+00D7) to the code point 32 above, which is the
  same as setting bit 5; everything else is unchanged.
\<close>

definition lower_char :: "char \<Rightarrow> char" where
  "lower_char c =
     (let n = (of_char c :: nat)
      in if (65 \<le> n \<and> n \<le> 90) \<or> (192 \<le> n \<and> n \<le> 222 \<and> n \<noteq> 215)
         then (case c of Char b0 b1 b2 b3 b4 b5 b6 b7 \<Rightarrow> Char b0 b1 b2 b3 b4 True b6 b7)
         else c)"

definition lower :: "string \<Rightarrow> string" where
  "lower s = map lower_char s"

text \<open>\<^verbatim>\<open>str.isspace()\<close> for one code point below U+0100.\<close>

definition isspace :: "char \<Rightarrow> bool" where
  "isspace c =
     (let n = (of_char c :: nat)
      in (9 \<le> n \<and> n \<le> 13) \<or> (28 \<le> n \<and> n \<le> 32) \<or> n = 133 \<or> n = 160)"

text \<open>\<^verbatim>\<open>str.strip()\<close>: drop leading and trailing whitespace.\<close>

definition strip :: "string \<Rightarrow> string" where
  "strip s = rev (dropWhile isspace (rev (dropWhile isspace s)))"

text \<open>\<^verbatim>\<open>sub in s\<close> on strings: \<open>sub\<close> occurs at some position of \<open>s\<close>.\<close>

fun py_in :: "string \<Rightarrow> string \<Rightarrow> bool" where
  "py_in sub [] = (sub = [])"
| "py_in sub (c # cs) = (prefix sub (c # cs) \<or> py_in sub cs)"

text \<open>\<^verbatim>\<open>x or ""\<close> for an optional string, and the truth value of an optional string
  (\<^verbatim>\<open>None\<close> and \<^verbatim>\<open>""\<close> are false).\<close>

definition or_str :: "string option \<Rightarrow> string" where
  "or_str x = (case x of None \<Rightarrow> [] | Some s \<Rightarrow> s)"

definition truthy :: "string option \<Rightarrow> bool" where
  "truthy x = (case x of None \<Rightarrow> False | Some s \<Rightarrow> s \<noteq> [])"

section \<open>The JSON records of the catalogue API\<close>

text \<open>
  Each JSON object the scripts read is a record with the keys they access.  A key read
  with \<^verbatim>\<open>d.get(k)\<close> is an \<open>option\<close> field: \<open>None\<close> stands for an absent key and for
  JSON \<^verbatim>\<open>null\<close>, which \<^verbatim>\<open>get\<close> does not tell apart.  Where the code writes
  \<^verbatim>\<open>d.get(k) or {}\<close> and later tests the truth value of the result, \<open>None\<close> stands for
  the empty object as well.  A key read with \<^verbatim>\<open>d[k]\<close>, or with a default that only an
  absent key triggers, is a plain field: the catalogue always sends it.
\<close>

datatype level =
  Level (l_id: "string option") (l_display_name: "string option") (l_domain: "level option")

record institution =
  inst_id :: "string option"
  inst_display_name :: "string option"

record author_json =
  a_id :: string
  a_display_name :: string
  a_orcid :: "string option"
  a_works_count :: int
  a_last_known_institutions :: "institution list"

record source_json =
  src_type :: "string option"

record location =
  loc_source :: "source_json option"

record author_ref =
  ref_id :: "string option"

record authorship =
  au_author :: "author_ref option"
  au_author_position :: "string option"
  au_institutions :: "institution list"

record topic_json =
  t_id :: "string option"
  t_display_name :: "string option"
  t_subfield :: "level option"
  t_field :: "level option"
  t_domain :: "level option"
  t_score :: "rat option"

record work =
  w_id :: string
  w_display_name :: "string option"
  w_publication_year :: "int option"
  w_doi :: "string option"
  w_authorships :: "authorship list"
  w_primary_location :: "location option"
  w_type :: "string option"
  w_type_crossref :: "string option"
  w_primary_topic :: "topic_json option"
  w_topics :: "topic_json list"

section \<open>Venue classification (\<^verbatim>\<open>conf_jour_outputs.py\<close>)\<close>

definition classify_venue_type :: "work \<Rightarrow> string" where
  "classify_venue_type w =
     (let pl = w_primary_location w;
          src = (case pl of None \<Rightarrow> None | Some l \<Rightarrow> loc_source l);
          t = strip (lower (or_str (case src of None \<Rightarrow> None | Some s \<Rightarrow> src_type s)))
      in if t = ''journal'' \<or> t = ''conference'' then t
         else
           (let wt = lower (or_str (w_type w));
                tcr = lower (or_str (w_type_crossref w))
            in if py_in ''proceedings'' tcr \<or> py_in ''proceedings'' wt
                  \<or> py_in ''conference'' tcr \<or> py_in ''conference'' wt
               then ''conference''
               else if py_in ''journal'' tcr \<or> py_in ''journal'' wt then ''journal''
               else ''other''))"

text \<open>
  The same algorithm in the words of the specification, to compare with the code:
  the structured signal is \<^verbatim>\<open>primary_location.source.type\<close> (empty when any step of the
  path is missing), compared after lower-casing and trimming; a free-text field
  \<^emph>\<open>mentions\<close> a word when the word is a contiguous substring of its lower-cased text.
\<close>

fun structured_type :: "location option \<Rightarrow> string" where
  "structured_type (Some \<lparr>loc_source = Some \<lparr>src_type = Some s\<rparr>\<rparr>) = s"
| "structured_type _ = []"

definition mentions :: "string \<Rightarrow> work \<Rightarrow> bool" where
  "mentions word w \<longleftrightarrow>
     sublist word (lower (or_str (w_type w))) \<or> sublist word (lower (or_str (w_type_crossref w)))"

definition spec_venue :: "work \<Rightarrow> string" where
  "spec_venue w =
     (if strip (lower (structured_type (w_primary_location w))) = ''journal'' then ''journal''
      else if strip (lower (structured_type (w_primary_location w))) = ''conference''
        then ''conference''
      else if mentions ''proceedings'' w \<or> mentions ''conference'' w then ''conference''
      else if mentions ''journal'' w then ''journal''
      else ''other'')"

section \<open>The outside world: HTTP, sleeping, printing\<close>

text \<open>
  Both scripts talk to the catalogue through \<^verbatim>\<open>requests.get\<close>, pause with
  \<^verbatim>\<open>time.sleep\<close> and report with \<^verbatim>\<open>print\<close>.  The model threads a \<open>world\<close> record
  through every function: the number of GET requests issued so far, the arguments of all
  sleeps, and the messages printed, each oldest first.  Program state (the database, the
  topic cache, the local variables of \<^verbatim>\<open>main\<close>) extends this record.

  An endpoint stands for one URL of the catalogue.  Its answer may depend on how many
  requests have been issued before (so a scripted sequence of answers is an endpoint) and
  on the query parameters (so a server keyed by cursor is one too).  The request headers
  are a constant of the process and are not modelled.  A response is a status code and
  the parsed JSON body; the body is only read when the status is 200.

  Sleep durations are Python floats; the model keeps them as exact rationals (0.6 is
  \<open>3/5\<close>, 1.6 is \<open>8/5\<close>), so the rounding of binary floating point is not represented.
\<close>

type_synonym params = "(string \<times> string) list"

record 'b response =
  status_code :: int
  json :: 'b

type_synonym 'b endpoint = "nat \<Rightarrow> params \<Rightarrow> 'b response"

text \<open>
  Both \<^verbatim>\<open>raise r.HTTPError(msg, ...)\<close> and \<^verbatim>\<open>raise r.HTTPError(f"Retries exceeded. {msg}", ...)\<close>
  are \<open>HTTPError\<close>; the flag tells whether the message starts with \<^verbatim>\<open>Retries exceeded.\<close>,
  the number is the status code of the response attached.  \<open>IntegrityError\<close> is
  \<^verbatim>\<open>sqlite3.IntegrityError\<close>, which no \<^verbatim>\<open>except\<close> clause of the scripts catches.
\<close>

datatype error = HTTPError bool int | IntegrityError

datatype message =
    Warning_fetch_failed_year string int error
  | Warning_works_fetch_failed string error
  | Warning_topic_enrich_failed string error
  | Authors_stored nat
  | Unique_works_stored nat

record world =
  calls :: nat
  sleeps :: "rat list"
  printed :: "message list"

definition sleep :: "rat \<Rightarrow> 'a world_scheme \<Rightarrow> 'a world_scheme" where
  "sleep d st = st\<lparr>sleeps := sleeps st @ [d]\<rparr>"

definition print :: "message \<Rightarrow> 'a world_scheme \<Rightarrow> 'a world_scheme" where
  "print m st = st\<lparr>printed := printed st @ [m]\<rparr>"

definition PER_PAGE :: string where "PER_PAGE = ''200''"
definition PAGE_SLEEP :: rat where "PAGE_SLEEP = 1 / 5"
definition RETRY_MAX :: nat where "RETRY_MAX = 5"
definition RETRY_BACKOFF :: rat where "RETRY_BACKOFF = 8 / 5"

section \<open>HTTP helper with retry (both scripts)\<close>

text \<open>
  The \<^verbatim>\<open>while True\<close> loop of \<^verbatim>\<open>get_with_retry\<close>, with its two local variables
  \<^verbatim>\<open>delay\<close> and \<^verbatim>\<open>tries\<close> (\<^verbatim>\<open>attempt\<close> in \<^verbatim>\<open>nust_authors.py\<close>) as arguments.  The
  loop is the same text in both scripts; they differ only in the initial delay.
\<close>

function get_with_retry_loop ::
  "'b endpoint \<Rightarrow> params \<Rightarrow> rat \<Rightarrow> nat \<Rightarrow> 'a world_scheme \<Rightarrow> (error + 'b) \<times> 'a world_scheme"
where
  "get_with_retry_loop ep params delay tries st =
     (let resp = ep (calls st) params;
          st1 = st\<lparr>calls := Suc (calls st)\<rparr>
      in if status_code resp = 200 then (Inr (json resp), st1)
         else if status_code resp \<in> {403, 404, 422}
           then (Inl (HTTPError False (status_code resp)), st1)
         else if status_code resp \<in> {429, 500, 502, 503, 504}
           then (if tries + 1 > RETRY_MAX
                 then (Inl (HTTPError True (status_code resp)), st1)
                 else get_with_retry_loop ep params (delay * RETRY_BACKOFF) (tries + 1)
                        (sleep delay st1))
         else (Inl (HTTPError False (status_code resp)), st1))"
  by pat_completeness auto
termination
  by (relation "measure (\<lambda>(ep, params, delay, tries, st). Suc RETRY_MAX - tries)") auto

declare get_with_retry_loop.simps [simp del]

text \<open>\<^verbatim>\<open>conf_jour_outputs.get_with_retry\<close>: \<^verbatim>\<open>delay = 0.6\<close>, \<^verbatim>\<open>tries = 0\<close>.\<close>

definition get_with_retry_conf ::
  "'b endpoint \<Rightarrow> params \<Rightarrow> 'a world_scheme \<Rightarrow> (error + 'b) \<times> 'a world_scheme" where
  "get_with_retry_conf ep params st = get_with_retry_loop ep params (3 / 5) 0 st"

text \<open>\<^verbatim>\<open>nust_authors.get_with_retry\<close>: \<^verbatim>\<open>delay = 0.5\<close>, \<^verbatim>\<open>attempt = 0\<close>.\<close>

definition get_with_retry_nust ::
  "'b endpoint \<Rightarrow> params \<Rightarrow> 'a world_scheme \<Rightarrow> (error + 'b) \<times> 'a world_scheme" where
  "get_with_retry_nust ep params st = get_with_retry_loop ep params (1 / 2) 0 st"

text \<open>
  Vocabulary for stating what a fetch does.  A status is \<^emph>\<open>transient\<close> when it is one of
  429, 500, 502, 503, 504.  \<open>after_attempts k d st\<close> is the world after \<open>k\<close> retried
  attempts and one final attempt: \<open>k + 1\<close> requests, and \<open>k\<close> sleeps of durations
  \<open>d, d * RETRY_BACKOFF, d * RETRY_BACKOFF\<^sup>2, \<dots>\<close>
\<close>

definition transient :: "int \<Rightarrow> bool" where
  "transient c \<longleftrightarrow> c = 429 \<or> c = 500 \<or> c = 502 \<or> c = 503 \<or> c = 504"

definition after_attempts :: "nat \<Rightarrow> rat \<Rightarrow> 'a world_scheme \<Rightarrow> 'a world_scheme" where
  "after_attempts k d st =
     st\<lparr>calls := calls st + k + 1,
        sleeps := sleeps st @ map (\<lambda>i. d * RETRY_BACKOFF ^ i) [0..<k]\<rparr>"

text \<open>Two scripted endpoints and an initial world, for concrete runs of the fetch.\<close>

definition flaky :: "string endpoint" where
  "flaky n ps = (if n < 2 then \<lparr>status_code = 503, json = ''unavailable''\<rparr>
                 else \<lparr>status_code = 200, json = ''body''\<rparr>)"

definition forbidden :: "string endpoint" where
  "forbidden n ps = \<lparr>status_code = 403, json = ''forbidden''\<rparr>"

definition world0 :: world where
  "world0 = \<lparr>calls = 0, sleeps = [], printed = []\<rparr>"

section \<open>Cursor pagination (both scripts)\<close>

text \<open>
  One page of a cursor-paginated collection: \<^verbatim>\<open>data.get("results", [])\<close> and
  \<^verbatim>\<open>data.get("meta", {}).get("next_cursor")\<close>.
\<close>

record 'r page =
  results :: "'r list"
  next_cursor :: "string option"

text \<open>
  The four paginators (\<^verbatim>\<open>iter_authors\<close> in each script, \<^verbatim>\<open>iter_author_works_year\<close>,
  \<^verbatim>\<open>iter_author_works_2025\<close>) are Python generators, each consumed by exactly one
  \<^verbatim>\<open>for\<close> statement.  A generator runs interleaved with its consumer: the loop body runs
  on each record as soon as it is yielded, before the generator goes on to the next
  record or the next page, and an exception on either side ends both.  The model
  therefore gives the paginator the loop body as an argument: \<open>for_each\<close> is the inner
  \<^verbatim>\<open>for a in results: yield a\<close> with the consumer's body in place of the \<^verbatim>\<open>yield\<close>.
\<close>

fun for_each ::
  "('r \<Rightarrow> 's \<Rightarrow> (error + unit) \<times> 's) \<Rightarrow> 'r list \<Rightarrow> 's \<Rightarrow> (error + unit) \<times> 's" where
  "for_each body [] st = (Inr (), st)"
| "for_each body (x # xs) st =
     (case body x st of
        (Inl e, st1) \<Rightarrow> (Inl e, st1)
      | (Inr u, st1) \<Rightarrow> for_each body xs st1)"

text \<open>
  The \<^verbatim>\<open>while True\<close> loop shared by the four paginators; \<open>fetch\<close> is the script's
  \<^verbatim>\<open>get_with_retry\<close> on the collection's URL.  The loop has no bound: it is a partial
  function, and \<open>None\<close> means that it never returns.
\<close>

partial_function (option) cursor_loop ::
  "(params \<Rightarrow> 'a world_scheme \<Rightarrow> (error + 'r page) \<times> 'a world_scheme) \<Rightarrow>
   ('r \<Rightarrow> 'a world_scheme \<Rightarrow> (error + unit) \<times> 'a world_scheme) \<Rightarrow>
   params \<Rightarrow> 'a world_scheme \<Rightarrow> ((error + unit) \<times> 'a world_scheme) option"
where
  "cursor_loop fetch body params st =
     (case fetch params st of
        (Inl e, st1) \<Rightarrow> Some (Inl e, st1)
      | (Inr data, st1) \<Rightarrow>
          (case for_each body (results data) st1 of
             (Inl e, st2) \<Rightarrow> Some (Inl e, st2)
           | (Inr u, st2) \<Rightarrow>
               (case next_cursor data of
                  None \<Rightarrow> Some (Inr (), st2)
                | Some nxt \<Rightarrow>
                    if nxt = [] then Some (Inr (), st2)
                    else cursor_loop fetch body (AList.update ''cursor'' nxt params)
                           (sleep PAGE_SLEEP st2))))"

text \<open>
  The configuration read from the environment, and the catalogue: the authors and works
  collections and the per-topic lookup, whose URL ends in the last path segment of the
  topic id.
\<close>

record config =
  NUST_INST_ID :: string
  YEAR_START :: int
  YEAR_END :: int
  YEAR :: int

record topic_obj =
  o_id :: "string option"
  o_display_name :: "string option"
  o_subfield :: "level option"
  o_field :: "level option"
  o_domain :: "level option"

record server =
  authors_api :: "author_json page endpoint"
  works_api :: "work page endpoint"
  topics_api :: "string \<Rightarrow> topic_obj endpoint"

text \<open>Python's \<^verbatim>\<open>str(n)\<close> for an integer, as the f-strings use it.\<close>

function str_nat :: "nat \<Rightarrow> string" where
  "str_nat n = (if n < 10 then [''0123456789'' ! n]
                else str_nat (n div 10) @ [''0123456789'' ! (n mod 10)])"
  by pat_completeness auto
termination
  by (relation "measure id") auto

declare str_nat.simps [simp del]

definition str_int :: "int \<Rightarrow> string" where
  "str_int i = (if i < 0 then CHR ''-'' # str_nat (nat (- i)) else str_nat (nat i))"

definition authors_params :: "config \<Rightarrow> params" where
  "authors_params cfg =
     [(''filter'', ''last_known_institutions.id:'' @ NUST_INST_ID cfg @ '',has_orcid:true''),
      (''per-page'', PER_PAGE),
      (''cursor'', ''*''),
      (''select'', ''id,display_name,orcid,works_count,last_known_institutions''),
      (''sort'', ''works_count:desc'')]"

definition works_filter :: "config \<Rightarrow> string \<Rightarrow> int \<Rightarrow> string" where
  "works_filter cfg author_id year =
     ''authorships.author.id:'' @ author_id @ '',publication_year:'' @ str_int year
       @ '',authorships.institutions.id:'' @ NUST_INST_ID cfg"

text \<open>
  The initial \<^verbatim>\<open>params\<close> dictionaries of \<^verbatim>\<open>iter_author_works_year\<close> and of
  \<^verbatim>\<open>iter_author_works_2025\<close>.
\<close>

definition works_year_params :: "config \<Rightarrow> string \<Rightarrow> int \<Rightarrow> params" where
  "works_year_params cfg author_id year =
     [(''filter'', works_filter cfg author_id year),
      (''per-page'', PER_PAGE),
      (''cursor'', ''*''),
      (''select'',
       ''id,display_name,publication_year,doi,authorships,primary_location,type,type_crossref''),
      (''sort'', ''cited_by_count:desc'')]"

definition works_2025_params :: "config \<Rightarrow> string \<Rightarrow> params" where
  "works_2025_params cfg author_id =
     [(''filter'', works_filter cfg author_id (YEAR cfg)),
      (''per-page'', PER_PAGE),
      (''cursor'', ''*''),
      (''select'', ''id,display_name,publication_year,doi,authorships,primary_topic,topics''),
      (''sort'', ''cited_by_count:desc'')]"

text \<open>\<^verbatim>\<open>conf_jour_outputs.iter_authors\<close> and \<^verbatim>\<open>conf_jour_outputs.iter_author_works_year\<close>.\<close>

definition iter_authors_conf ::
  "server \<Rightarrow> config \<Rightarrow> (author_json \<Rightarrow> 'a world_scheme \<Rightarrow> (error + unit) \<times> 'a world_scheme) \<Rightarrow>
   'a world_scheme \<Rightarrow> ((error + unit) \<times> 'a world_scheme) option" where
  "iter_authors_conf srv cfg body st =
     cursor_loop (get_with_retry_conf (authors_api srv)) body (authors_params cfg) st"

definition iter_author_works_year ::
  "server \<Rightarrow> config \<Rightarrow> string \<Rightarrow> int \<Rightarrow>
   (work \<Rightarrow> 'a world_scheme \<Rightarrow> (error + unit) \<times> 'a world_scheme) \<Rightarrow>
   'a world_scheme \<Rightarrow> ((error + unit) \<times> 'a world_scheme) option" where
  "iter_author_works_year srv cfg author_id year body st =
     cursor_loop (get_with_retry_conf (works_api srv)) body
       (works_year_params cfg author_id year) st"

text \<open>\<^verbatim>\<open>nust_authors.iter_authors\<close> and \<^verbatim>\<open>nust_authors.iter_author_works_2025\<close>.\<close>

definition iter_authors_nust ::
  "server \<Rightarrow> config \<Rightarrow> (author_json \<Rightarrow> 'a world_scheme \<Rightarrow> (error + unit) \<times> 'a world_scheme) \<Rightarrow>
   'a world_scheme \<Rightarrow> ((error + unit) \<times> 'a world_scheme) option" where
  "iter_authors_nust srv cfg body st =
     cursor_loop (get_with_retry_nust (authors_api srv)) body (authors_params cfg) st"

definition iter_author_works_2025 ::
  "server \<Rightarrow> config \<Rightarrow> string \<Rightarrow>
   (work \<Rightarrow> 'a world_scheme \<Rightarrow> (error + unit) \<times> 'a world_scheme) \<Rightarrow>
   'a world_scheme \<Rightarrow> ((error + unit) \<times> 'a world_scheme) option" where
  "iter_author_works_2025 srv cfg author_id body st =
     cursor_loop (get_with_retry_nust (works_api srv)) body
       (works_2025_params cfg author_id) st"

text \<open>
  A consumer that only records what it is given: each yielded record together with the
  number of requests issued by the time it is yielded.
\<close>

record 'r collector = world +
  yielded :: "('r \<times> nat) list"

definition collect :: "'r \<Rightarrow> 'r collector \<Rightarrow> (error + unit) \<times> 'r collector" where
  "collect r st = (Inr (), st\<lparr>yielded := yielded st @ [(r, calls st)]\<rparr>)"

text \<open>
  Vocabulary for scripted catalogues.  \<open>serves ep n params pages\<close>: the endpoint answers
  request number \<open>n\<close> with parameters \<open>params\<close> by the first page, and then each request
  that carries the previous page's cursor by the next page; every page but the last has
  a non-empty next-cursor, and the last page has none (absent or empty).
  \<open>drained pages st\<close> is the collector after one request per page, a pause between
  consecutive pages, and every record of every page recorded in page order, the records
  of page number \<open>i\<close> (from 1) stamped with \<open>i\<close> requests issued.
\<close>

fun serves :: "'r page endpoint \<Rightarrow> nat \<Rightarrow> params \<Rightarrow> 'r page list \<Rightarrow> bool" where
  "serves ep n params [] = False"
| "serves ep n params [p] =
     (ep n params = \<lparr>status_code = 200, json = p\<rparr> \<and> \<not> truthy (next_cursor p))"
| "serves ep n params (p # q # ps) =
     (ep n params = \<lparr>status_code = 200, json = p\<rparr> \<and> truthy (next_cursor p)
      \<and> serves ep (Suc n) (AList.update ''cursor'' (or_str (next_cursor p)) params) (q # ps))"

fun stamped :: "nat \<Rightarrow> 'r page list \<Rightarrow> ('r \<times> nat) list" where
  "stamped n [] = []"
| "stamped n (p # ps) = map (\<lambda>r. (r, Suc n)) (results p) @ stamped (Suc n) ps"

definition drained :: "'r page list \<Rightarrow> 'r collector \<Rightarrow> 'r collector" where
  "drained pages st =
     st\<lparr>calls := calls st + length pages,
        sleeps := sleeps st @ replicate (length pages - 1) PAGE_SLEEP,
        yielded := yielded st @ stamped (calls st) pages\<rparr>"


section \<open>The store of \<^verbatim>\<open>conf_jour_outputs.py\<close>\<close>

text \<open>
  Tables with a \<^verbatim>\<open>PRIMARY KEY\<close> are maps from the key to the other columns; the fact
  table, whose only constraint is \<^verbatim>\<open>UNIQUE(author_id, work_id)\<close>, is the list of its
  rows in insertion order.  Nullable columns are \<open>option\<close>s.  The script writes through
  one connection and makes its writes durable with \<^verbatim>\<open>con.commit()\<close>: the state holds
  the tables as the connection sees them (\<open>db\<close>) and as they are on disk (\<open>committed\<close>).
  If the process ends without a commit, \<open>committed\<close> is what remains.
\<close>

record author_row =
  ar_display_name :: string
  ar_orcid :: string
  ar_works_count :: int
  ar_last_known_institution_id :: "string option"
  ar_last_known_institution_name :: "string option"

record work_row =
  wr_title :: "string option"
  wr_publication_year :: "int option"
  wr_doi :: "string option"
  wr_venue_type :: string

record fact_row =
  f_author_id :: string
  f_work_id :: string
  f_year :: "int option"
  f_venue_type :: string

record conf_db =
  authors :: "string \<rightharpoonup> author_row"
  works :: "string \<rightharpoonup> work_row"
  fact_authorships_works :: "fact_row list"

record conf_state = world +
  db :: conf_db
  committed :: conf_db
  author_ids :: "string list"
  count_authors :: nat
  seen_works :: "string set"

text \<open>
  \<^verbatim>\<open>s.replace(old, new)\<close> for a non-empty \<open>old\<close>, replacing every occurrence from left to
  right.  The scripts call it with the literal \<^verbatim>\<open>"https://orcid.org/"\<close> only; for the
  empty \<open>old\<close>, which Python treats differently, the model returns \<open>s\<close>.
\<close>

function str_replace :: "string \<Rightarrow> string \<Rightarrow> string \<Rightarrow> string" where
  "str_replace old new s =
     (if old = [] \<or> s = [] then s
      else if prefix old s then new @ str_replace old new (drop (length old) s)
      else hd s # str_replace old new (tl s))"
  by pat_completeness auto
termination
  by (relation "measure (\<lambda>(old, new, s). length s)") auto

declare str_replace.simps [simp del]

text \<open>
  \<^verbatim>\<open>upsert_author\<close> is the same statement in both scripts: insert, or on a conflict on
  \<^verbatim>\<open>author_id\<close> overwrite every other column with the new values.
\<close>

definition upsert_author ::
  "author_json \<Rightarrow> (string \<rightharpoonup> author_row) \<Rightarrow> (string \<rightharpoonup> author_row)" where
  "upsert_author a tbl =
     (let lkis = a_last_known_institutions a;
          inst_id = (case lkis of [] \<Rightarrow> None | i # _ \<Rightarrow> inst_id i);
          inst_nm = (case lkis of [] \<Rightarrow> None | i # _ \<Rightarrow> inst_display_name i)
      in tbl(a_id a \<mapsto>
           \<lparr>ar_display_name = a_display_name a,
            ar_orcid = str_replace ''https://orcid.org/'' [] (or_str (a_orcid a)),
            ar_works_count = a_works_count a,
            ar_last_known_institution_id = inst_id,
            ar_last_known_institution_name = inst_nm\<rparr>))"

definition upsert_work_conf :: "work \<Rightarrow> conf_db \<Rightarrow> conf_db" where
  "upsert_work_conf w d =
     d\<lparr>works := (works d)(w_id w \<mapsto>
          \<lparr>wr_title = w_display_name w,
           wr_publication_year = w_publication_year w,
           wr_doi = w_doi w,
           wr_venue_type = classify_venue_type w\<rparr>)\<rparr>"

text \<open>
  \<^verbatim>\<open>INSERT OR IGNORE INTO fact_authorships_works\<close>: the row is appended unless a row with
  the same (author_id, work_id) is present, in which case nothing changes.
\<close>

definition fact_key :: "fact_row \<Rightarrow> string \<times> string" where
  "fact_key r = (f_author_id r, f_work_id r)"

definition insert_or_ignore_fact :: "fact_row \<Rightarrow> fact_row list \<Rightarrow> fact_row list" where
  "insert_or_ignore_fact r rows =
     (if fact_key r \<in> set (map fact_key rows) then rows else rows @ [r])"

text \<open>The loop of \<^verbatim>\<open>upsert_fact\<close> over the authorships of the work.\<close>

fun upsert_fact_loop :: "work \<Rightarrow> authorship list \<Rightarrow> fact_row list \<Rightarrow> fact_row list" where
  "upsert_fact_loop w [] rows = rows"
| "upsert_fact_loop w (au # aus) rows =
     (let aid = (case au_author au of None \<Rightarrow> None | Some a \<Rightarrow> ref_id a)
      in if \<not> truthy aid then upsert_fact_loop w aus rows
         else upsert_fact_loop w aus
                (insert_or_ignore_fact
                   \<lparr>f_author_id = or_str aid, f_work_id = w_id w,
                    f_year = w_publication_year w,
                    f_venue_type = classify_venue_type w\<rparr> rows))"

definition upsert_fact :: "work \<Rightarrow> conf_db \<Rightarrow> conf_db" where
  "upsert_fact w d =
     d\<lparr>fact_authorships_works :=
         upsert_fact_loop w (w_authorships w) (fact_authorships_works d)\<rparr>"

section \<open>\<^verbatim>\<open>main\<close> of \<^verbatim>\<open>conf_jour_outputs.py\<close>\<close>

definition commit_conf :: "conf_state \<Rightarrow> conf_state" where
  "commit_conf st = st\<lparr>committed := db st\<rparr>"

text \<open>The body of \<^verbatim>\<open>for a in iter_authors()\<close>.\<close>

definition conf_author_body :: "author_json \<Rightarrow> conf_state \<Rightarrow> (error + unit) \<times> conf_state" where
  "conf_author_body a st =
     (let st1 = st\<lparr>db := (db st)\<lparr>authors := upsert_author a (authors (db st))\<rparr>\<rparr>;
          st2 = st1\<lparr>author_ids := author_ids st1 @ [a_id a]\<rparr>;
          st3 = st2\<lparr>count_authors := count_authors st2 + 1\<rparr>
      in (Inr (), if count_authors st3 mod 500 = 0 then commit_conf st3 else st3))"

text \<open>The body of \<^verbatim>\<open>for w in iter_author_works_year(aid, yr)\<close>.\<close>

definition conf_work_body :: "work \<Rightarrow> conf_state \<Rightarrow> (error + unit) \<times> conf_state" where
  "conf_work_body w st =
     (let wid = w_id w;
          st1 = st\<lparr>db := upsert_work_conf w (db st)\<rparr>;
          st2 = st1\<lparr>db := upsert_fact w (db st1)\<rparr>
      in (Inr (), if wid \<notin> seen_works st2
                  then st2\<lparr>seen_works := insert wid (seen_works st2)\<rparr> else st2))"

text \<open>
  The loop \<^verbatim>\<open>for yr in range(YEAR_START, YEAR_END + 1)\<close> with its \<^verbatim>\<open>try\<close> statement:
  the commit after a drained work stream, and \<^verbatim>\<open>except r.HTTPError\<close>, which prints the
  warning and continues with the next year.  Any other exception leaves the loop.
\<close>

fun conf_year_loop ::
  "server \<Rightarrow> config \<Rightarrow> string \<Rightarrow> int list \<Rightarrow> conf_state \<Rightarrow> ((error + unit) \<times> conf_state) option"
where
  "conf_year_loop srv cfg aid [] st = Some (Inr (), st)"
| "conf_year_loop srv cfg aid (yr # yrs) st =
     (case iter_author_works_year srv cfg aid yr conf_work_body st of
        None \<Rightarrow> None
      | Some (Inr u, st1) \<Rightarrow> conf_year_loop srv cfg aid yrs (commit_conf st1)
      | Some (Inl (HTTPError x c), st1) \<Rightarrow>
          conf_year_loop srv cfg aid yrs
            (print (Warning_fetch_failed_year aid yr (HTTPError x c)) st1)
      | Some (Inl IntegrityError, st1) \<Rightarrow> Some (Inl IntegrityError, st1))"

text \<open>The loop \<^verbatim>\<open>for aid in author_ids\<close>.\<close>

fun conf_author_loop ::
  "server \<Rightarrow> config \<Rightarrow> string list \<Rightarrow> conf_state \<Rightarrow> ((error + unit) \<times> conf_state) option"
where
  "conf_author_loop srv cfg [] st = Some (Inr (), st)"
| "conf_author_loop srv cfg (aid # aids) st =
     (case conf_year_loop srv cfg aid [YEAR_START cfg..YEAR_END cfg] st of
        None \<Rightarrow> None
      | Some (Inl e, st1) \<Rightarrow> Some (Inl e, st1)
      | Some (Inr u, st1) \<Rightarrow> conf_author_loop srv cfg aids st1)"

text \<open>
  \<^verbatim>\<open>main\<close> up to the last commit.  \<^verbatim>\<open>init_db\<close> opens the database file and creates
  the tables only if they do not exist, so the connection starts from what is on disk.
  The banner, the closing of the connection and the CSV export are not modelled.
\<close>

definition conf_main :: "server \<Rightarrow> config \<Rightarrow> conf_state \<Rightarrow> ((error + unit) \<times> conf_state) option"
where
  "conf_main srv cfg st0 =
     (let st = st0\<lparr>db := committed st0, author_ids := [], count_authors := 0\<rparr>
      in case iter_authors_conf srv cfg conf_author_body st of
           None \<Rightarrow> None
         | Some (Inl e, st1) \<Rightarrow> Some (Inl e, st1)
         | Some (Inr u, st1) \<Rightarrow>
             (let st2 = print (Authors_stored (count_authors st1)) (commit_conf st1);
                  st3 = st2\<lparr>seen_works := {}\<rparr>
              in case conf_author_loop srv cfg (author_ids st3) st3 of
                   None \<Rightarrow> None
                 | Some (Inl e, st4) \<Rightarrow> Some (Inl e, st4)
                 | Some (Inr u, st4) \<Rightarrow>
                     Some (Inr (),
                       commit_conf (print (Unique_works_stored (card (seen_works st4))) st4))))"

text \<open>
  Vocabulary for the fact table.  \<open>au_ids\<close> lists the author ids for which
  \<^verbatim>\<open>upsert_fact\<close> issues an insert (those that are neither missing nor empty), in the
  order of the authorships; a work \<^emph>\<open>observes\<close> the pair (author id, work id) when it has
  that id and lists that author.  \<open>fact_of\<close> is the row an observation would write,
  \<open>rows_for\<close> selects the rows of a pair, and \<open>facts_after ws st\<close> is the fact table
  after the body of the work loop has run on the works \<open>ws\<close>, in order, from \<open>st\<close>.
\<close>

definition fact_of :: "string \<Rightarrow> work \<Rightarrow> fact_row" where
  "fact_of aid w =
     \<lparr>f_author_id = aid, f_work_id = w_id w, f_year = w_publication_year w,
      f_venue_type = classify_venue_type w\<rparr>"

definition rows_for :: "string \<times> string \<Rightarrow> fact_row list \<Rightarrow> fact_row list" where
  "rows_for k rows = filter (\<lambda>r. fact_key r = k) rows"

definition au_ids :: "authorship list \<Rightarrow> string list" where
  "au_ids aus = map or_str (filter truthy
       (map (\<lambda>au. case au_author au of None \<Rightarrow> None | Some a \<Rightarrow> ref_id a) aus))"

definition fact_authors :: "work \<Rightarrow> string list" where
  "fact_authors w = au_ids (w_authorships w)"

definition observes :: "string \<Rightarrow> string \<Rightarrow> work \<Rightarrow> bool" where
  "observes aid wid w \<longleftrightarrow> w_id w = wid \<and> aid \<in> set (fact_authors w)"

definition facts_after :: "work list \<Rightarrow> conf_state \<Rightarrow> fact_row list" where
  "facts_after ws st = fact_authorships_works (db (snd (for_each conf_work_body ws st)))"

section \<open>The store and the topic cache of \<^verbatim>\<open>nust_authors.py\<close>\<close>

record work2025_row =
  w5_title :: "string option"
  w5_publication_year :: "int option"
  w5_doi :: "string option"

record authorship_row =
  as_work_id :: string
  as_author_id :: string
  as_author_position :: "string option"
  as_is_nust_affiliation :: int

text \<open>
  A row of \<^verbatim>\<open>topics\<close> without its key.  The column \<^verbatim>\<open>display_name\<close> is declared
  \<^verbatim>\<open>NOT NULL\<close>; the constraint is enforced by the upsert statement below.
\<close>

record topic_row =
  tr_display_name :: "string option"
  tr_subfield_id :: "string option"
  tr_subfield :: "string option"
  tr_field_id :: "string option"
  tr_field :: "string option"
  tr_domain_id :: "string option"
  tr_domain :: "string option"

record work_topic_row =
  wt_work_id :: string
  wt_topic_id :: string
  wt_score :: "rat option"
  wt_is_primary :: int

record nust_db =
  n_authors :: "string \<rightharpoonup> author_row"
  works_2025 :: "string \<rightharpoonup> work2025_row"
  authorships_2025 :: "authorship_row list"
  topics :: "string \<rightharpoonup> topic_row"
  work_topics_2025 :: "work_topic_row list"

text \<open>The normalised dictionary that \<^verbatim>\<open>get_topic_details\<close> builds and caches.\<close>

record details =
  d_id :: "string option"
  d_display_name :: "string option"
  d_subfield :: "level option"
  d_field :: "level option"
  d_domain :: "level option"

text \<open>
  The state of the script: the world, the module-level \<^verbatim>\<open>_topic_cache\<close>, the tables as
  the connection sees them and as committed, and the counters of \<^verbatim>\<open>main\<close>.
\<close>

record nust_state = world +
  topic_cache :: "string \<rightharpoonup> details"
  ndb :: nust_db
  ncommitted :: nust_db
  author_count :: nat
  seen_work_ids :: "string set"
  work_count :: nat

text \<open>
  \<^verbatim>\<open>x or y\<close> on optional JSON objects (\<open>None\<close>, standing for null and for the empty
  object, is the only false value), SQL's \<^verbatim>\<open>COALESCE(x, y)\<close>, and
  \<^verbatim>\<open>topic_id.split('/')[-1]\<close>.
\<close>

definition py_or :: "'a option \<Rightarrow> 'a option \<Rightarrow> 'a option" where
  "py_or x y = (case x of Some v \<Rightarrow> Some v | None \<Rightarrow> y)"

definition coalesce :: "'a option \<Rightarrow> 'a option \<Rightarrow> 'a option" where
  "coalesce x y = (case x of Some v \<Rightarrow> Some v | None \<Rightarrow> y)"

definition last_segment :: "string \<Rightarrow> string" where
  "last_segment s = rev (takeWhile (\<lambda>c. c \<noteq> CHR ''/'') (rev s))"

text \<open>
  \<^verbatim>\<open>get_topic_details\<close>.  Its \<^verbatim>\<open>params\<close> dictionary and the dictionary \<^verbatim>\<open>details\<close>
  that it builds from the response are named here, since the properties refer to them.
\<close>

definition topic_params :: params where
  "topic_params = [(''select'', ''id,display_name,subfield,field,domain'')]"

definition normalized :: "topic_obj \<Rightarrow> details" where
  "normalized obj =
     \<lparr>d_id = o_id obj,
      d_display_name = o_display_name obj,
      d_subfield = o_subfield obj,
      d_field = o_field obj,
      d_domain = py_or (case o_field obj of None \<Rightarrow> None | Some f \<Rightarrow> l_domain f)
                       (o_domain obj)\<rparr>"

definition get_topic_details ::
  "server \<Rightarrow> string \<Rightarrow> nust_state \<Rightarrow> (error + details) \<times> nust_state" where
  "get_topic_details srv topic_id st =
     (case topic_cache st topic_id of
        Some cached \<Rightarrow> (Inr cached, st)
      | None \<Rightarrow>
          (case get_with_retry_nust (topics_api srv (last_segment topic_id)) topic_params st of
             (Inl e, st1) \<Rightarrow> (Inl e, st1)
           | (Inr obj, st1) \<Rightarrow>
               (Inr (normalized obj),
                st1\<lparr>topic_cache := (topic_cache st1)(topic_id \<mapsto> normalized obj)\<rparr>)))"

text \<open>
  The statement of \<^verbatim>\<open>upsert_topic\<close>: \<^verbatim>\<open>INSERT INTO topics ... ON CONFLICT(topic_id) DO
  UPDATE SET c = COALESCE(excluded.c, topics.c)\<close> for each of the seven columns.  SQLite
  checks \<^verbatim>\<open>NOT NULL\<close> on the row to insert before it looks for a conflict, so a null
  \<^verbatim>\<open>display_name\<close> raises \<^verbatim>\<open>IntegrityError\<close> whether or not the topic is stored, and the
  table is unchanged.
\<close>

definition topics_upsert ::
  "string \<Rightarrow> topic_row \<Rightarrow> (string \<rightharpoonup> topic_row) \<Rightarrow> error + (string \<rightharpoonup> topic_row)" where
  "topics_upsert tid excluded tbl =
     (if tr_display_name excluded = None then Inl IntegrityError
      else case tbl tid of
             None \<Rightarrow> Inr (tbl(tid \<mapsto> excluded))
           | Some old \<Rightarrow>
               Inr (tbl(tid \<mapsto>
                 \<lparr>tr_display_name = coalesce (tr_display_name excluded) (tr_display_name old),
                  tr_subfield_id = coalesce (tr_subfield_id excluded) (tr_subfield_id old),
                  tr_subfield = coalesce (tr_subfield excluded) (tr_subfield old),
                  tr_field_id = coalesce (tr_field_id excluded) (tr_field_id old),
                  tr_field = coalesce (tr_field excluded) (tr_field old),
                  tr_domain_id = coalesce (tr_domain_id excluded) (tr_domain_id old),
                  tr_domain = coalesce (tr_domain excluded) (tr_domain old)\<rparr>)))"

text \<open>
  The tuple bound to the statement: \<^verbatim>\<open>(tdisp, sub.get("id"), sub.get("display_name"),
  fld.get("id"), ...)\<close>, where \<^verbatim>\<open>sub\<close>, \<^verbatim>\<open>fld\<close>, \<^verbatim>\<open>dom\<close> may be the empty object
  (\<open>domn\<close> is the script's \<^verbatim>\<open>dom\<close>).
\<close>

definition topic_binding ::
  "string option \<Rightarrow> level option \<Rightarrow> level option \<Rightarrow> level option \<Rightarrow> topic_row" where
  "topic_binding tdisp sub fld domn =
     \<lparr>tr_display_name = tdisp,
      tr_subfield_id = (case sub of None \<Rightarrow> None | Some l \<Rightarrow> l_id l),
      tr_subfield = (case sub of None \<Rightarrow> None | Some l \<Rightarrow> l_display_name l),
      tr_field_id = (case fld of None \<Rightarrow> None | Some l \<Rightarrow> l_id l),
      tr_field = (case fld of None \<Rightarrow> None | Some l \<Rightarrow> l_display_name l),
      tr_domain_id = (case domn of None \<Rightarrow> None | Some l \<Rightarrow> l_id l),
      tr_domain = (case domn of None \<Rightarrow> None | Some l \<Rightarrow> l_display_name l)\<rparr>"

text \<open>
  The first part of \<^verbatim>\<open>upsert_topic\<close>, from \<^verbatim>\<open>tdisp = t.get("display_name")\<close> to the end
  of the \<^verbatim>\<open>try\<close> statement: the values observed for the topic, read from the payload
  and, when field or domain is missing there, completed from \<^verbatim>\<open>get_topic_details\<close>.
  \<^verbatim>\<open>except r.HTTPError\<close> prints the warning and keeps what the payload has.
\<close>

definition topic_values ::
  "server \<Rightarrow> string \<Rightarrow> topic_json \<Rightarrow> nust_state \<Rightarrow> (error + topic_row) \<times> nust_state" where
  "topic_values srv tid t st =
     (let tdisp = t_display_name t;
          sub = t_subfield t;
          fld = t_field t;
          domn = t_domain t
      in if \<not> (fld \<noteq> None \<and> domn \<noteq> None)
         then (case get_topic_details srv tid st of
                 (Inr full, st1) \<Rightarrow>
                   (Inr (topic_binding
                           (if truthy tdisp then tdisp else d_display_name full)
                           (py_or sub (d_subfield full))
                           (py_or fld (d_field full))
                           (py_or domn (d_domain full))), st1)
               | (Inl (HTTPError x c), st1) \<Rightarrow>
                   (Inr (topic_binding tdisp sub fld domn),
                    print (Warning_topic_enrich_failed tid (HTTPError x c)) st1)
               | (Inl IntegrityError, st1) \<Rightarrow> (Inl IntegrityError, st1))
         else (Inr (topic_binding tdisp sub fld domn), st))"

text \<open>
  \<^verbatim>\<open>upsert_topic\<close>: returns \<^verbatim>\<open>None\<close> without touching anything when the payload is
  empty or has no id, and the topic id otherwise.
\<close>

definition upsert_topic ::
  "server \<Rightarrow> topic_json \<Rightarrow> nust_state \<Rightarrow> (error + string option) \<times> nust_state" where
  "upsert_topic srv t st =
     (case t_id t of
        None \<Rightarrow> (Inr None, st)
      | Some tid \<Rightarrow>
          (case topic_values srv tid t st of
             (Inl e, st1) \<Rightarrow> (Inl e, st1)
           | (Inr excluded, st1) \<Rightarrow>
               (case topics_upsert tid excluded (topics (ndb st1)) of
                  Inl e \<Rightarrow> (Inl e, st1)
                | Inr tbl \<Rightarrow> (Inr (Some tid), st1\<lparr>ndb := (ndb st1)\<lparr>topics := tbl\<rparr>\<rparr>))))"

text \<open>
  Vocabulary for the topic properties.  \<open>topic_columns\<close> are the seven columns that the
  upsert statement merges.  \<open>cache_resolved srv st\<close>: every entry of the topic cache is
  the normalised body of a 200 response that the topic's endpoint gave to one of the
  requests issued so far.
\<close>

definition topic_columns :: "(topic_row \<Rightarrow> string option) list" where
  "topic_columns =
     [tr_display_name, tr_subfield_id, tr_subfield, tr_field_id, tr_field, tr_domain_id,
      tr_domain]"

definition cache_resolved :: "server \<Rightarrow> nust_state \<Rightarrow> bool" where
  "cache_resolved srv st \<longleftrightarrow>
     (\<forall>tid d. topic_cache st tid = Some d \<longrightarrow>
        (\<exists>n<calls st.
           status_code (topics_api srv (last_segment tid) n topic_params) = 200
           \<and> d = normalized (json (topics_api srv (last_segment tid) n topic_params))))"

text \<open>
  The values of a topic as an upsert is to observe them, in the words of the
  specification, to compare with what \<^verbatim>\<open>upsert_topic\<close> binds to its statement.
  \<open>payload_row\<close> takes every value from the payload.  \<open>enriched_row\<close> fills the gaps of
  the payload from the resolved details: each of subfield, field and domain is the
  payload's when the payload has it, else the resolved one, and the display name is the
  payload's unless that is missing or empty.  \<open>observed\<close>: the resolver is consulted only
  when the payload lacks field or domain, and when it fails the payload stands as it is.
\<close>

definition payload_row :: "topic_json \<Rightarrow> topic_row" where
  "payload_row t = topic_binding (t_display_name t) (t_subfield t) (t_field t) (t_domain t)"

definition enriched_row :: "topic_json \<Rightarrow> details \<Rightarrow> topic_row" where
  "enriched_row t full =
     topic_binding
       (if truthy (t_display_name t) then t_display_name t else d_display_name full)
       (case t_subfield t of Some l \<Rightarrow> Some l | None \<Rightarrow> d_subfield full)
       (case t_field t of Some l \<Rightarrow> Some l | None \<Rightarrow> d_field full)
       (case t_domain t of Some l \<Rightarrow> Some l | None \<Rightarrow> d_domain full)"

definition observed :: "server \<Rightarrow> string \<Rightarrow> topic_json \<Rightarrow> nust_state \<Rightarrow> topic_row" where
  "observed srv tid t st =
     (if t_field t \<noteq> None \<and> t_domain t \<noteq> None then payload_row t
      else case fst (get_topic_details srv tid st) of
             Inr full \<Rightarrow> enriched_row t full
           | Inl e \<Rightarrow> payload_row t)"

section \<open>Works, links and \<^verbatim>\<open>main\<close> of \<^verbatim>\<open>nust_authors.py\<close>\<close>

definition upsert_work_nust :: "work \<Rightarrow> nust_db \<Rightarrow> nust_db" where
  "upsert_work_nust wk d =
     d\<lparr>works_2025 := (works_2025 d)(w_id wk \<mapsto>
          \<lparr>w5_title = w_display_name wk,
           w5_publication_year = w_publication_year wk,
           w5_doi = w_doi wk\<rparr>)\<rparr>"

text \<open>
  \<^verbatim>\<open>INSERT OR IGNORE INTO work_topics_2025\<close>.  The topic id bound is what
  \<^verbatim>\<open>upsert_topic\<close> returned; a null would violate \<^verbatim>\<open>NOT NULL\<close>, which \<^verbatim>\<open>OR IGNORE\<close>
  turns into skipping the row.
\<close>

definition insert_or_ignore_work_topic ::
  "string \<Rightarrow> string option \<Rightarrow> rat option \<Rightarrow> int \<Rightarrow> work_topic_row list \<Rightarrow> work_topic_row list"
where
  "insert_or_ignore_work_topic work_id tid score prim rows =
     (case tid of
        None \<Rightarrow> rows
      | Some topic_id \<Rightarrow>
          if (work_id, topic_id) \<in> set (map (\<lambda>r. (wt_work_id r, wt_topic_id r)) rows) then rows
          else rows @ [\<lparr>wt_work_id = work_id, wt_topic_id = topic_id, wt_score = score,
                        wt_is_primary = prim\<rparr>])"

text \<open>One topic of a work: \<^verbatim>\<open>upsert_topic\<close>, then the link.\<close>

definition attach_topic ::
  "server \<Rightarrow> string \<Rightarrow> int \<Rightarrow> topic_json \<Rightarrow> nust_state \<Rightarrow> (error + unit) \<times> nust_state" where
  "attach_topic srv work_id prim t st =
     (case upsert_topic srv t st of
        (Inl e, st1) \<Rightarrow> (Inl e, st1)
      | (Inr tid, st1) \<Rightarrow>
          (Inr (), st1\<lparr>ndb := (ndb st1)\<lparr>work_topics_2025 :=
             insert_or_ignore_work_topic work_id tid (t_score t) prim
               (work_topics_2025 (ndb st1))\<rparr>\<rparr>))"

fun attach_topics_loop ::
  "server \<Rightarrow> string \<Rightarrow> topic_json list \<Rightarrow> nust_state \<Rightarrow> (error + unit) \<times> nust_state" where
  "attach_topics_loop srv work_id [] st = (Inr (), st)"
| "attach_topics_loop srv work_id (t # ts) st =
     (if t_id t = None then attach_topics_loop srv work_id ts st
      else case attach_topic srv work_id 0 t st of
             (Inl e, st1) \<Rightarrow> (Inl e, st1)
           | (Inr u, st1) \<Rightarrow> attach_topics_loop srv work_id ts st1)"

definition attach_work_topics ::
  "server \<Rightarrow> string \<Rightarrow> work \<Rightarrow> nust_state \<Rightarrow> (error + unit) \<times> nust_state" where
  "attach_work_topics srv work_id wk st =
     (case (case w_primary_topic wk of
              None \<Rightarrow> (Inr (), st)
            | Some pt \<Rightarrow> if t_id pt \<noteq> None then attach_topic srv work_id 1 pt st
                         else (Inr (), st)) of
        (Inl e, st1) \<Rightarrow> (Inl e, st1)
      | (Inr u, st1) \<Rightarrow> attach_topics_loop srv work_id (w_topics wk) st1)"

text \<open>\<^verbatim>\<open>attach_authorships\<close>: one \<^verbatim>\<open>INSERT OR IGNORE INTO authorships_2025\<close> per authorship
  that names an author.\<close>

definition insert_or_ignore_authorship ::
  "authorship_row \<Rightarrow> authorship_row list \<Rightarrow> authorship_row list" where
  "insert_or_ignore_authorship r rows =
     (if (as_work_id r, as_author_id r) \<in> set (map (\<lambda>x. (as_work_id x, as_author_id x)) rows)
      then rows else rows @ [r])"

fun attach_authorships_loop ::
  "config \<Rightarrow> string \<Rightarrow> authorship list \<Rightarrow> authorship_row list \<Rightarrow> authorship_row list" where
  "attach_authorships_loop cfg work_id [] rows = rows"
| "attach_authorships_loop cfg work_id (au # aus) rows =
     (let au_id = (case au_author au of None \<Rightarrow> None | Some a \<Rightarrow> ref_id a)
      in if \<not> truthy au_id then attach_authorships_loop cfg work_id aus rows
         else
           (let insts = au_institutions au;
                is_nust = (if list_ex (\<lambda>i. inst_id i = Some (NUST_INST_ID cfg)) insts
                           then 1 else 0)
            in attach_authorships_loop cfg work_id aus
                 (insert_or_ignore_authorship
                    \<lparr>as_work_id = work_id, as_author_id = or_str au_id,
                     as_author_position = au_author_position au,
                     as_is_nust_affiliation = is_nust\<rparr> rows)))"

definition attach_authorships :: "config \<Rightarrow> string \<Rightarrow> work \<Rightarrow> nust_db \<Rightarrow> nust_db" where
  "attach_authorships cfg work_id wk d =
     d\<lparr>authorships_2025 :=
         attach_authorships_loop cfg work_id (w_authorships wk) (authorships_2025 d)\<rparr>"

definition commit_nust :: "nust_state \<Rightarrow> nust_state" where
  "commit_nust st = st\<lparr>ncommitted := ndb st\<rparr>"

text \<open>The body of \<^verbatim>\<open>for a in iter_authors()\<close>.\<close>

definition nust_author_body :: "author_json \<Rightarrow> nust_state \<Rightarrow> (error + unit) \<times> nust_state" where
  "nust_author_body a st =
     (let st1 = st\<lparr>ndb := (ndb st)\<lparr>n_authors := upsert_author a (n_authors (ndb st))\<rparr>\<rparr>;
          st2 = st1\<lparr>author_count := author_count st1 + 1\<rparr>
      in (Inr (), if author_count st2 mod 500 = 0 then commit_nust st2 else st2))"

text \<open>The body of \<^verbatim>\<open>for wk in iter_author_works_2025(aid)\<close>.\<close>

definition nust_work_body ::
  "server \<Rightarrow> config \<Rightarrow> work \<Rightarrow> nust_state \<Rightarrow> (error + unit) \<times> nust_state" where
  "nust_work_body srv cfg wk st =
     (let wid = w_id wk;
          st1 = st\<lparr>ndb := upsert_work_nust wk (ndb st)\<rparr>;
          st2 = st1\<lparr>ndb := attach_authorships cfg wid wk (ndb st1)\<rparr>
      in case attach_work_topics srv wid wk st2 of
           (Inl e, st3) \<Rightarrow> (Inl e, st3)
         | (Inr u, st3) \<Rightarrow>
             (Inr (), if wid \<notin> seen_work_ids st3
                      then st3\<lparr>seen_work_ids := insert wid (seen_work_ids st3),
                               work_count := work_count st3 + 1\<rparr>
                      else st3))"

text \<open>
  The loop \<^verbatim>\<open>for aid in author_ids\<close> with its \<^verbatim>\<open>try\<close> statement: commit after a drained
  work stream; \<^verbatim>\<open>except r.HTTPError\<close> prints the warning and continues with the next
  author; any other exception leaves the loop.
\<close>

fun nust_author_loop ::
  "server \<Rightarrow> config \<Rightarrow> string list \<Rightarrow> nust_state \<Rightarrow> ((error + unit) \<times> nust_state) option"
where
  "nust_author_loop srv cfg [] st = Some (Inr (), st)"
| "nust_author_loop srv cfg (aid # aids) st =
     (case iter_author_works_2025 srv cfg aid (nust_work_body srv cfg) st of
        None \<Rightarrow> None
      | Some (Inr u, st1) \<Rightarrow> nust_author_loop srv cfg aids (commit_nust st1)
      | Some (Inl (HTTPError x c), st1) \<Rightarrow>
          nust_author_loop srv cfg aids
            (print (Warning_works_fetch_failed aid (HTTPError x c)) st1)
      | Some (Inl IntegrityError, st1) \<Rightarrow> Some (Inl IntegrityError, st1))"

text \<open>
  \<^verbatim>\<open>main\<close> up to the commit that follows the loop.  The author ids come from
  \<^verbatim>\<open>SELECT author_id FROM authors\<close>, whose row order SQL leaves open: \<open>row_order\<close> is
  that order, a parameter.  The banner and the report printed at the end are not
  modelled.
\<close>

definition nust_main ::
  "server \<Rightarrow> config \<Rightarrow> ((string \<rightharpoonup> author_row) \<Rightarrow> string list) \<Rightarrow> nust_state \<Rightarrow>
   ((error + unit) \<times> nust_state) option" where
  "nust_main srv cfg row_order st0 =
     (let st = st0\<lparr>ndb := ncommitted st0, author_count := 0\<rparr>
      in case iter_authors_nust srv cfg nust_author_body st of
           None \<Rightarrow> None
         | Some (Inl e, st1) \<Rightarrow> Some (Inl e, st1)
         | Some (Inr u, st1) \<Rightarrow>
             (let st2 = print (Authors_stored (author_count st1)) (commit_nust st1);
                  st3 = st2\<lparr>seen_work_ids := {}, work_count := 0\<rparr>;
                  author_ids = row_order (n_authors (ndb st3))
              in case nust_author_loop srv cfg author_ids st3 of
                   None \<Rightarrow> None
                 | Some (Inl e, st4) \<Rightarrow> Some (Inl e, st4)
                 | Some (Inr u, st4) \<Rightarrow> Some (Inr (), commit_nust st4)))"

section \<open>Invariants of the stores\<close>

text \<open>
  \<open>facts_ok\<close>: every row of the fact table of \<^verbatim>\<open>conf_jour_outputs.py\<close> names a work id
  that is in the works table.  \<open>links_ok\<close>: the same for the authorship links and the
  works table of \<^verbatim>\<open>nust_authors.py\<close>.  The invariants of the two states ask for this
  of the tables as the connection sees them and as committed.  \<open>links_same\<close> relates two
  states of \<^verbatim>\<open>nust_authors.py\<close> with the same works, authorship links and committed
  tables.
\<close>

definition facts_ok :: "conf_db \<Rightarrow> bool" where
  "facts_ok d \<longleftrightarrow> (\<forall>r\<in>set (fact_authorships_works d). f_work_id r \<in> dom (works d))"

definition links_ok :: "nust_db \<Rightarrow> bool" where
  "links_ok d \<longleftrightarrow> (\<forall>r\<in>set (authorships_2025 d). as_work_id r \<in> dom (works_2025 d))"

definition conf_inv :: "conf_state \<Rightarrow> bool" where
  "conf_inv st \<longleftrightarrow> facts_ok (db st) \<and> facts_ok (committed st)"

definition nust_inv :: "nust_state \<Rightarrow> bool" where
  "nust_inv st \<longleftrightarrow> links_ok (ndb st) \<and> links_ok (ncommitted st)"

definition links_same :: "nust_state \<Rightarrow> nust_state \<Rightarrow> bool" where
  "links_same st st' \<longleftrightarrow>
     works_2025 (ndb st') = works_2025 (ndb st)
     \<and> authorships_2025 (ndb st') = authorships_2025 (ndb st)
     \<and> ncommitted st' = ncommitted st"











section \<open>Concrete catalogues for test runs\<close>

text \<open>
  A configuration, a work with given authors, a topic endpoint that knows no topic, a
  catalogue whose works collection has two pages, and one that answers every request
  with the same non-empty next-cursor.  \<open>discard\<close> is a consumer that does nothing.
\<close>

definition cfg0 :: config where
  "cfg0 = \<lparr>NUST_INST_ID = ''I101993903'', YEAR_START = 2023, YEAR_END = 2025, YEAR = 2025\<rparr>"

definition demo_work :: "string \<Rightarrow> string list \<Rightarrow> int \<Rightarrow> work" where
  "demo_work wid aids yr =
     \<lparr>w_id = wid, w_display_name = Some ''a title'', w_publication_year = Some yr,
      w_doi = None,
      w_authorships =
        map (\<lambda>a. \<lparr>au_author = Some \<lparr>ref_id = Some a\<rparr>, au_author_position = None,
                    au_institutions = []\<rparr>) aids,
      w_primary_location = None, w_type = Some ''article'',
      w_type_crossref = Some ''journal-article'',
      w_primary_topic = None, w_topics = []\<rparr>"

definition no_topic :: "string \<Rightarrow> topic_obj endpoint" where
  "no_topic seg n ps = \<lparr>status_code = 404,
     json = \<lparr>o_id = None, o_display_name = None, o_subfield = None, o_field = None,
             o_domain = None\<rparr>\<rparr>"

definition two_page_srv :: server where
  "two_page_srv =
     \<lparr>authors_api = (\<lambda>n ps. \<lparr>status_code = 200, json = \<lparr>results = [], next_cursor = None\<rparr>\<rparr>),
      works_api = (\<lambda>n ps.
        if map_of ps ''cursor'' = Some ''*''
        then \<lparr>status_code = 200,
              json = \<lparr>results = [demo_work ''W1'' [''A1''] 2025, demo_work ''W2'' [''A1''] 2025],
                      next_cursor = Some ''c2''\<rparr>\<rparr>
        else \<lparr>status_code = 200,
              json = \<lparr>results = [demo_work ''W3'' [''A1''] 2025], next_cursor = Some []\<rparr>\<rparr>),
      topics_api = no_topic\<rparr>"

definition stuck_srv :: server where
  "stuck_srv =
     \<lparr>authors_api = (\<lambda>n ps. \<lparr>status_code = 200,
                        json = \<lparr>results = [], next_cursor = Some ''A''\<rparr>\<rparr>),
      works_api = (\<lambda>n ps. \<lparr>status_code = 200,
                        json = \<lparr>results = [], next_cursor = Some ''A''\<rparr>\<rparr>),
      topics_api = no_topic\<rparr>"

definition collector0 :: "'r collector" where
  "collector0 = \<lparr>calls = 0, sleeps = [], printed = [], yielded = []\<rparr>"

definition discard :: "'r \<Rightarrow> 's \<Rightarrow> (error + unit) \<times> 's" where
  "discard r st = (Inr (), st)"

text \<open>A state of \<^verbatim>\<open>conf_jour_outputs.py\<close> with an empty store.\<close>

definition conf_state0 :: conf_state where
  "conf_state0 =
     \<lparr>calls = 0, sleeps = [], printed = [],
      db = \<lparr>authors = Map.empty, works = Map.empty, fact_authorships_works = []\<rparr>,
      committed = \<lparr>authors = Map.empty, works = Map.empty, fact_authorships_works = []\<rparr>,
      author_ids = [], count_authors = 0, seen_works = {}\<rparr>"

text \<open>
  States, stored rows and payloads of \<^verbatim>\<open>nust_authors.py\<close> for concrete runs, and a
  catalogue whose topic lookup fails on the first request and succeeds afterwards.
\<close>

definition topic_T1 :: string where
  "topic_T1 = ''https://openalex.org/T1''"

definition nust_state0 :: nust_state where
  "nust_state0 =
     \<lparr>calls = 0, sleeps = [], printed = [], topic_cache = Map.empty,
      ndb = \<lparr>n_authors = Map.empty, works_2025 = Map.empty, authorships_2025 = [],
             topics = Map.empty, work_topics_2025 = []\<rparr>,
      ncommitted = \<lparr>n_authors = Map.empty, works_2025 = Map.empty, authorships_2025 = [],
             topics = Map.empty, work_topics_2025 = []\<rparr>,
      author_count = 0, seen_work_ids = {}, work_count = 0\<rparr>"

definition stored_topic_row :: topic_row where
  "stored_topic_row =
     \<lparr>tr_display_name = Some ''Old name'',
      tr_subfield_id = Some ''S1'', tr_subfield = Some ''Subfield one'',
      tr_field_id = Some ''F1'', tr_field = Some ''Field one'',
      tr_domain_id = Some ''D1'', tr_domain = Some ''Domain one''\<rparr>"

definition bare_topic_row :: topic_row where
  "bare_topic_row =
     \<lparr>tr_display_name = Some ''Old name'',
      tr_subfield_id = None, tr_subfield = None, tr_field_id = None, tr_field = None,
      tr_domain_id = None, tr_domain = None\<rparr>"

definition with_topic :: "topic_row \<Rightarrow> nust_state" where
  "with_topic row = nust_state0\<lparr>ndb := (ndb nust_state0)\<lparr>topics := [topic_T1 \<mapsto> row]\<rparr>\<rparr>"

definition payload_new :: topic_json where
  "payload_new =
     \<lparr>t_id = Some topic_T1, t_display_name = Some ''New name'', t_subfield = None,
      t_field = Some (Level (Some ''F2'') (Some ''Field two'') None),
      t_domain = Some (Level (Some ''D1'') None None), t_score = None\<rparr>"

definition payload_partial :: topic_json where
  "payload_partial =
     \<lparr>t_id = Some topic_T1, t_display_name = Some ''New name'', t_subfield = None,
      t_field = None, t_domain = None, t_score = None\<rparr>"

definition payload_nameless :: topic_json where
  "payload_nameless =
     \<lparr>t_id = Some topic_T1, t_display_name = None, t_subfield = None,
      t_field = Some (Level (Some ''F2'') (Some ''Field two'') None),
      t_domain = Some (Level (Some ''D2'') (Some ''Domain two'') None), t_score = None\<rparr>"

definition late_topic_srv :: server where
  "late_topic_srv =
     \<lparr>authors_api = (\<lambda>n ps. \<lparr>status_code = 200, json = \<lparr>results = [], next_cursor = None\<rparr>\<rparr>),
      works_api = (\<lambda>n ps. \<lparr>status_code = 200, json = \<lparr>results = [], next_cursor = None\<rparr>\<rparr>),
      topics_api = (\<lambda>seg n ps.
        if n = 0 then no_topic seg n ps
        else \<lparr>status_code = 200,
              json = \<lparr>o_id = Some topic_T1, o_display_name = Some ''Resolved name'',
                      o_subfield = Some (Level (Some ''S9'') (Some ''Subfield nine'') None),
                      o_field = Some (Level (Some ''F9'') (Some ''Field nine'')
                                  (Some (Level (Some ''D9'') (Some ''Domain nine'') None))),
                      o_domain = None\<rparr>\<rparr>)\<rparr>"

text \<open>
  Concrete harvest runs.  \<open>cfg1\<close> harvests the single year 2025.  \<open>coauthor_srv\<close> lists
  one author, \<open>A1\<close>, whose only work \<open>W1\<close> has the co-author \<open>A2\<close>; \<open>coauthor_final\<close>
  and \<open>coauthor_nust_final\<close> are the states in which the two scripts end on it.
  \<open>failing_srv\<close> answers by request number: the author list (\<open>A1\<close>, \<open>A2\<close>), then a first
  page of works holding \<open>W1\<close> with a next-cursor, then 403, then a last page holding
  \<open>W2\<close>; \<open>failing_final\<close> is the state in which \<^verbatim>\<open>conf_jour_outputs.py\<close> ends on it.
\<close>

definition cfg1 :: config where
  "cfg1 = \<lparr>NUST_INST_ID = ''I101993903'', YEAR_START = 2025, YEAR_END = 2025, YEAR = 2025\<rparr>"

definition demo_author :: "string \<Rightarrow> author_json" where
  "demo_author aid =
     \<lparr>a_id = aid, a_display_name = ''A. Author'',
      a_orcid = Some ''https://orcid.org/0000-0002-1825-0097'', a_works_count = 3,
      a_last_known_institutions = []\<rparr>"

definition demo_author_row :: author_row where
  "demo_author_row =
     \<lparr>ar_display_name = ''A. Author'', ar_orcid = ''0000-0002-1825-0097'', ar_works_count = 3,
      ar_last_known_institution_id = None, ar_last_known_institution_name = None\<rparr>"

definition demo_work_row :: work_row where
  "demo_work_row =
     \<lparr>wr_title = Some ''a title'', wr_publication_year = Some 2025, wr_doi = None,
      wr_venue_type = ''journal''\<rparr>"

definition demo_fact :: "string \<Rightarrow> string \<Rightarrow> fact_row" where
  "demo_fact aid wid =
     \<lparr>f_author_id = aid, f_work_id = wid, f_year = Some 2025, f_venue_type = ''journal''\<rparr>"

definition last_page :: "'r list \<Rightarrow> 'r page response" where
  "last_page rs = \<lparr>status_code = 200, json = \<lparr>results = rs, next_cursor = None\<rparr>\<rparr>"

definition coauthor_srv :: server where
  "coauthor_srv =
     \<lparr>authors_api = (\<lambda>n ps. last_page [demo_author ''A1'']),
      works_api = (\<lambda>n ps. last_page [demo_work ''W1'' [''A1'', ''A2''] 2025]),
      topics_api = no_topic\<rparr>"

definition coauthor_db :: conf_db where
  "coauthor_db =
     \<lparr>authors = [''A1'' \<mapsto> demo_author_row],
      works = [''W1'' \<mapsto> demo_work_row],
      fact_authorships_works = [demo_fact ''A1'' ''W1'', demo_fact ''A2'' ''W1'']\<rparr>"

definition coauthor_final :: conf_state where
  "coauthor_final =
     \<lparr>calls = 2, sleeps = [], printed = [Authors_stored 1, Unique_works_stored 1],
      db = coauthor_db, committed = coauthor_db,
      author_ids = [''A1''], count_authors = 1, seen_works = {''W1''}\<rparr>"

definition demo_link :: "string \<Rightarrow> string \<Rightarrow> authorship_row" where
  "demo_link wid aid =
     \<lparr>as_work_id = wid, as_author_id = aid, as_author_position = None,
      as_is_nust_affiliation = 0\<rparr>"

definition coauthor_nust_db :: nust_db where
  "coauthor_nust_db =
     \<lparr>n_authors = [''A1'' \<mapsto> demo_author_row],
      works_2025 = [''W1'' \<mapsto>
        \<lparr>w5_title = Some ''a title'', w5_publication_year = Some 2025, w5_doi = None\<rparr>],
      authorships_2025 = [demo_link ''W1'' ''A1'', demo_link ''W1'' ''A2''],
      topics = Map.empty, work_topics_2025 = []\<rparr>"

definition coauthor_nust_final :: nust_state where
  "coauthor_nust_final =
     \<lparr>calls = 2, sleeps = [], printed = [Authors_stored 1], topic_cache = Map.empty,
      ndb = coauthor_nust_db, ncommitted = coauthor_nust_db,
      author_count = 1, seen_work_ids = {''W1''}, work_count = 1\<rparr>"






section \<open>Properties of venue classification\<close>

lemma py_in_sublist: "py_in sub s \<longleftrightarrow> sublist sub s"
  by (induction s) (auto simp: sublist_Cons_right)

lemma structured_type_path:
  "structured_type pl =
     or_str (case (case pl of None \<Rightarrow> None | Some l \<Rightarrow> loc_source l) of
               None \<Rightarrow> None | Some s \<Rightarrow> src_type s)"
  by (cases pl rule: structured_type.cases) (simp_all add: or_str_def)

text \<open>
  C4.  Venue classification is the order-sensitive cascade of the specification: the
  trimmed, lower-cased structured source type wins when it is \<open>journal\<close> or
  \<open>conference\<close>, whatever the free-text fields say; otherwise a mention of
  \<open>proceedings\<close> or \<open>conference\<close> in type or type_crossref gives \<open>conference\<close>;
  otherwise a mention of \<open>journal\<close> gives \<open>journal\<close>; otherwise \<open>other\<close>.
\<close>

theorem classify_venue_type_cascade: "classify_venue_type w = spec_venue w"
  unfolding classify_venue_type_def spec_venue_def mentions_def Let_def
    py_in_sublist structured_type_path
  by auto

theorem classify_venue_type_cascade_witness:
  "classify_venue_type
     (demo_work ''W1'' [''A1''] 2025
        \<lparr>w_primary_location := Some \<lparr>loc_source = Some \<lparr>src_type = Some '' Conference ''\<rparr>\<rparr>\<rparr>)
     = ''conference''
   \<and> classify_venue_type (demo_work ''W1'' [''A1''] 2025\<lparr>w_type_crossref := Some ''Proceedings-Article''\<rparr>)
     = ''conference''
   \<and> classify_venue_type (demo_work ''W1'' [''A1''] 2025\<lparr>w_type_crossref := None\<rparr>) = ''other''"
  using classify_venue_type_cascade
    [of "demo_work ''W1'' [''A1''] 2025
        \<lparr>w_primary_location := Some \<lparr>loc_source = Some \<lparr>src_type = Some '' Conference ''\<rparr>\<rparr>\<rparr>"]
    classify_venue_type_cascade
    [of "demo_work ''W1'' [''A1''] 2025\<lparr>w_type_crossref := Some ''Proceedings-Article''\<rparr>"]
    classify_venue_type_cascade [of "demo_work ''W1'' [''A1''] 2025\<lparr>w_type_crossref := None\<rparr>"]
  by (simp add: spec_venue_def mentions_def demo_work_def or_str_def lower_def lower_char_def
      strip_def isspace_def py_in_sublist [symmetric])

section \<open>Properties of the retrying fetch\<close>

lemma upt_map_shift: "f 0 # map (\<lambda>i. f (Suc i)) [0..<k] = map f [0..<Suc k]"
  by (simp add: map_upt_Suc del: upt_Suc)

lemma backoff_shift:
  "d # map (\<lambda>i. d * RETRY_BACKOFF * RETRY_BACKOFF ^ i) [0..<k]
     = map (\<lambda>i. d * RETRY_BACKOFF ^ i) [0..<Suc k]"
  using upt_map_shift [of "\<lambda>i. d * RETRY_BACKOFF ^ i" k] by (simp add: mult.assoc)

lemma retry_loop_step:
  assumes "transient (status_code (ep (calls st) params))" and "tries < RETRY_MAX"
  shows "get_with_retry_loop ep params delay tries st =
      get_with_retry_loop ep params (delay * RETRY_BACKOFF) (tries + 1)
        (st\<lparr>calls := Suc (calls st), sleeps := sleeps st @ [delay]\<rparr>)"
  using assms
  by (subst get_with_retry_loop.simps) (auto simp: transient_def Let_def sleep_def)

lemma retry_loop_settles:
  assumes "\<forall>i<k. transient (status_code (ep (calls st + i) params))"
    and "\<not> transient (status_code (ep (calls st + k) params))"
    and "tries + k \<le> RETRY_MAX"
  shows "get_with_retry_loop ep params delay tries st =
     ((if status_code (ep (calls st + k) params) = 200
       then Inr (json (ep (calls st + k) params))
       else Inl (HTTPError False (status_code (ep (calls st + k) params)))),
      after_attempts k delay st)"
  using assms
proof (induction k arbitrary: st delay tries)
  case 0
  then show ?case
    by (subst get_with_retry_loop.simps)
       (auto simp: transient_def Let_def after_attempts_def)
next
  case (Suc k)
  let ?st = "st\<lparr>calls := Suc (calls st), sleeps := sleeps st @ [delay]\<rparr>"
  from Suc.prems(1) have t0: "transient (status_code (ep (calls st) params))"
    by (metis add.right_neutral zero_less_Suc)
  have a: "\<forall>i<k. transient (status_code (ep (calls ?st + i) params))"
    using Suc.prems(1) by auto
  have b: "\<not> transient (status_code (ep (calls ?st + k) params))"
    using Suc.prems(2) by simp
  have c: "(tries + 1) + k \<le> RETRY_MAX" and d: "tries < RETRY_MAX"
    using Suc.prems(3) by simp_all
  have step: "get_with_retry_loop ep params delay tries st =
      get_with_retry_loop ep params (delay * RETRY_BACKOFF) (tries + 1) ?st"
    using t0 d by (rule retry_loop_step)
  show ?case
    unfolding step Suc.IH [OF a b c]
    using backoff_shift [of delay k] by (simp add: after_attempts_def)
qed

lemma retry_loop_exhausts:
  assumes "\<forall>i\<le>k. transient (status_code (ep (calls st + i) params))"
    and "tries + k = RETRY_MAX"
  shows "get_with_retry_loop ep params delay tries st =
     (Inl (HTTPError True (status_code (ep (calls st + k) params))),
      after_attempts k delay st)"
  using assms
proof (induction k arbitrary: st delay tries)
  case 0
  then show ?case
    by (subst get_with_retry_loop.simps)
       (auto simp: transient_def Let_def after_attempts_def)
next
  case (Suc k)
  let ?st = "st\<lparr>calls := Suc (calls st), sleeps := sleeps st @ [delay]\<rparr>"
  from Suc.prems(1) have t0: "transient (status_code (ep (calls st) params))"
    by (metis add.right_neutral le0)
  have a: "\<forall>i\<le>k. transient (status_code (ep (calls ?st + i) params))"
    using Suc.prems(1) by auto
  have c: "(tries + 1) + k = RETRY_MAX" and d: "tries < RETRY_MAX"
    using Suc.prems(2) by simp_all
  have step: "get_with_retry_loop ep params delay tries st =
      get_with_retry_loop ep params (delay * RETRY_BACKOFF) (tries + 1) ?st"
    using t0 d by (rule retry_loop_step)
  show ?case
    unfolding step Suc.IH [OF a c]
    using backoff_shift [of delay k] by (simp add: after_attempts_def)
qed

lemma retry_loop_cases:
  fixes ep :: "'b endpoint" and st :: "'a world_scheme"
  shows "(\<exists>k\<le>RETRY_MAX. (\<forall>i<k. transient (status_code (ep (calls st + i) params)))
            \<and> \<not> transient (status_code (ep (calls st + k) params)))
       \<or> (\<forall>i\<le>RETRY_MAX. transient (status_code (ep (calls st + i) params)))"
proof (cases "\<forall>i\<le>RETRY_MAX. transient (status_code (ep (calls st + i) params))")
  case True
  then show ?thesis by blast
next
  case False
  define Q where "Q i \<longleftrightarrow> \<not> transient (status_code (ep (calls st + i) params))" for i
  from False obtain j where j: "j \<le> RETRY_MAX" "Q j" by (auto simp: Q_def)
  define k where "k = (LEAST i. Q i)"
  have "Q k" unfolding k_def using j(2) by (rule LeastI)
  moreover have "k \<le> j" unfolding k_def using j(2) by (rule Least_le)
  moreover have "\<forall>i<k. \<not> Q i" unfolding k_def using not_less_Least by blast
  ultimately show ?thesis using j(1) unfolding Q_def by (intro disjI1 exI [of _ k]) auto
qed

text \<open>
  C3.  A fetch returns the body exactly when one of the attempts it makes answers 200.
  Each transient answer (429, 500, 502, 503, 504) is followed by a sleep and a retry, the
  delays starting at the base value and growing by the factor \<open>RETRY_BACKOFF > 1\<close>; after
  \<open>RETRY_MAX\<close> retries one more transient answer raises the retries-exceeded error.
  Any other status raises at once, with no further request and no further sleep.
\<close>

theorem get_with_retry_outcomes:
  fixes ep :: "'b endpoint" and st :: "'a world_scheme"
  assumes g: "(g = get_with_retry_conf \<and> d = 3 / 5) \<or> (g = get_with_retry_nust \<and> d = 1 / 2)"
  shows "1 < RETRY_BACKOFF
    \<and> (\<forall>k\<le>RETRY_MAX. (\<forall>i<k. transient (status_code (ep (calls st + i) params))) \<longrightarrow>
          status_code (ep (calls st + k) params) = 200 \<longrightarrow>
          g ep params st = (Inr (json (ep (calls st + k) params)), after_attempts k d st))
    \<and> (\<forall>k\<le>RETRY_MAX. (\<forall>i<k. transient (status_code (ep (calls st + i) params))) \<longrightarrow>
          status_code (ep (calls st + k) params) \<noteq> 200 \<longrightarrow>
          \<not> transient (status_code (ep (calls st + k) params)) \<longrightarrow>
          g ep params st =
            (Inl (HTTPError False (status_code (ep (calls st + k) params))), after_attempts k d st))
    \<and> ((\<forall>i\<le>RETRY_MAX. transient (status_code (ep (calls st + i) params))) \<longrightarrow>
          g ep params st =
            (Inl (HTTPError True (status_code (ep (calls st + RETRY_MAX) params))),
             after_attempts RETRY_MAX d st))
    \<and> ((\<exists>b. fst (g ep params st) = Inr b) \<longleftrightarrow>
         (\<exists>k\<le>RETRY_MAX. (\<forall>i<k. transient (status_code (ep (calls st + i) params)))
             \<and> status_code (ep (calls st + k) params) = 200))"
proof -
  have loop: "g ep params st = get_with_retry_loop ep params d 0 st"
    using g by (auto simp only: get_with_retry_conf_def get_with_retry_nust_def)
  have ok: "g ep params st = (Inr (json (ep (calls st + k) params)), after_attempts k d st)"
    if "k \<le> RETRY_MAX" "\<forall>i<k. transient (status_code (ep (calls st + i) params))"
       "status_code (ep (calls st + k) params) = 200" for k
    unfolding loop using that retry_loop_settles [of k ep st params 0 d]
    by (simp add: transient_def)
  have rej: "g ep params st =
       (Inl (HTTPError False (status_code (ep (calls st + k) params))), after_attempts k d st)"
    if "k \<le> RETRY_MAX" "\<forall>i<k. transient (status_code (ep (calls st + i) params))"
       "status_code (ep (calls st + k) params) \<noteq> 200"
       "\<not> transient (status_code (ep (calls st + k) params))" for k
    unfolding loop using that retry_loop_settles [of k ep st params 0 d] by simp
  have exh: "g ep params st =
       (Inl (HTTPError True (status_code (ep (calls st + RETRY_MAX) params))),
        after_attempts RETRY_MAX d st)"
    if "\<forall>i\<le>RETRY_MAX. transient (status_code (ep (calls st + i) params))"
    unfolding loop using that retry_loop_exhausts [of RETRY_MAX ep st params 0 d] by simp
  have iff: "(\<exists>b. fst (g ep params st) = Inr b) \<longleftrightarrow>
         (\<exists>k\<le>RETRY_MAX. (\<forall>i<k. transient (status_code (ep (calls st + i) params)))
             \<and> status_code (ep (calls st + k) params) = 200)" (is "?L \<longleftrightarrow> ?R")
  proof
    assume ?R
    then show ?L using ok by fastforce
  next
    assume L: ?L
    from retry_loop_cases [of ep st params] show ?R
    proof
      assume "\<forall>i\<le>RETRY_MAX. transient (status_code (ep (calls st + i) params))"
      from exh [OF this] L show ?R by simp
    next
      assume "\<exists>k\<le>RETRY_MAX. (\<forall>i<k. transient (status_code (ep (calls st + i) params)))
            \<and> \<not> transient (status_code (ep (calls st + k) params))"
      then obtain k where k: "k \<le> RETRY_MAX"
          "\<forall>i<k. transient (status_code (ep (calls st + i) params))"
          "\<not> transient (status_code (ep (calls st + k) params))" by blast
      have "status_code (ep (calls st + k) params) = 200"
      proof (rule ccontr)
        assume "status_code (ep (calls st + k) params) \<noteq> 200"
        from rej [OF k(1,2) this k(3)] L show False by simp
      qed
      with k show ?R by blast
    qed
  qed
  have "1 < RETRY_BACKOFF" by (simp add: RETRY_BACKOFF_def)
  with ok rej exh iff show ?thesis by blast
qed

theorem get_with_retry_outcomes_witness:
  "get_with_retry_conf flaky [] world0 =
     (Inr ''body'', \<lparr>calls = 3, sleeps = [3 / 5, 24 / 25], printed = []\<rparr>)
   \<and> get_with_retry_nust forbidden [] world0 =
     (Inl (HTTPError False 403), \<lparr>calls = 1, sleeps = [], printed = []\<rparr>)"
proof -
  have a: "get_with_retry_conf flaky [] world0 =
     (Inr ''body'', \<lparr>calls = 3, sleeps = [3 / 5, 24 / 25], printed = []\<rparr>)"
    using get_with_retry_outcomes [of get_with_retry_conf "3 / 5" flaky world0 "[]",
        THEN conjunct2, THEN conjunct1, rule_format, of 2]
    by (simp add: flaky_def world0_def after_attempts_def RETRY_MAX_def RETRY_BACKOFF_def
        transient_def upt_rec)
  have b: "get_with_retry_nust forbidden [] world0 =
     (Inl (HTTPError False 403), \<lparr>calls = 1, sleeps = [], printed = []\<rparr>)"
    using get_with_retry_outcomes [of get_with_retry_nust "1 / 2" forbidden world0 "[]",
        THEN conjunct2, THEN conjunct2, THEN conjunct1, rule_format, of 0]
    by (simp add: forbidden_def world0_def after_attempts_def RETRY_MAX_def transient_def)
  from a b show ?thesis ..
qed

section \<open>Properties of cursor pagination\<close>

lemma fetch_ok_conf:
  "status_code (ep (calls st) ps) = 200 \<Longrightarrow>
   get_with_retry_conf ep ps st = (Inr (json (ep (calls st) ps)), st\<lparr>calls := Suc (calls st)\<rparr>)"
  by (simp add: get_with_retry_conf_def get_with_retry_loop.simps)

lemma fetch_ok_nust:
  "status_code (ep (calls st) ps) = 200 \<Longrightarrow>
   get_with_retry_nust ep ps st = (Inr (json (ep (calls st) ps)), st\<lparr>calls := Suc (calls st)\<rparr>)"
  by (simp add: get_with_retry_nust_def get_with_retry_loop.simps)

lemma for_each_collect:
  "for_each collect xs st = (Inr (), st\<lparr>yielded := yielded st @ map (\<lambda>r. (r, calls st)) xs\<rparr>)"
  by (induction xs arbitrary: st) (simp_all add: collect_def)

lemma cursor_loop_last:
  assumes "fetch params st = (Inr data, st1)"
    and "for_each body (results data) st1 = (Inr (), st2)"
    and "\<not> truthy (next_cursor data)"
  shows "cursor_loop fetch body params st = Some (Inr (), st2)"
  using assms by (subst cursor_loop.simps) (simp add: truthy_def split: option.splits)

lemma cursor_loop_more:
  assumes "fetch params st = (Inr data, st1)"
    and "for_each body (results data) st1 = (Inr (), st2)"
    and "truthy (next_cursor data)"
  shows "cursor_loop fetch body params st =
     cursor_loop fetch body (AList.update ''cursor'' (or_str (next_cursor data)) params)
       (sleep PAGE_SLEEP st2)"
  using assms by (subst cursor_loop.simps) (simp add: truthy_def or_str_def split: option.splits)



lemma cursor_loop_drains:
  assumes "serves ep (calls st) params pages"
    and "fetch = get_with_retry_conf ep \<or> fetch = get_with_retry_nust ep"
  shows "cursor_loop fetch collect params st = Some (Inr (), drained pages st)"
  using assms
proof (induction ep "calls st" params pages arbitrary: st rule: serves.induct)
  case (1 ep params)
  then show ?case by simp
next
  case (2 ep params p)
  from "2.prems"(1) have r200: "status_code (ep (calls st) params) = 200"
    and rj: "json (ep (calls st) params) = p"
    and l: "\<not> truthy (next_cursor p)" by simp_all
  have f: "fetch params st = (Inr p, st\<lparr>calls := Suc (calls st)\<rparr>)"
    using "2.prems"(2) fetch_ok_conf [of ep st params] fetch_ok_nust [of ep st params] r200 rj
    by auto
  have fe: "for_each collect (results p) (st\<lparr>calls := Suc (calls st)\<rparr>) =
      (Inr (), st\<lparr>calls := Suc (calls st),
         yielded := yielded st @ map (\<lambda>r. (r, Suc (calls st))) (results p)\<rparr>)"
    by (simp add: for_each_collect)
  show ?case
    using cursor_loop_last [where fetch = fetch and params = params and st = st, OF f fe l]
    by (simp add: drained_def)
next
  case (3 ep params p q ps)
  from "3.prems"(1) have r200: "status_code (ep (calls st) params) = 200"
    and rj: "json (ep (calls st) params) = p"
    and l: "truthy (next_cursor p)"
    and s: "serves ep (Suc (calls st))
              (AList.update ''cursor'' (or_str (next_cursor p)) params) (q # ps)"
    by simp_all
  have f: "fetch params st = (Inr p, st\<lparr>calls := Suc (calls st)\<rparr>)"
    using "3.prems"(2) fetch_ok_conf [of ep st params] fetch_ok_nust [of ep st params] r200 rj
    by auto
  let ?st2 = "sleep PAGE_SLEEP (st\<lparr>calls := Suc (calls st),
       yielded := yielded st @ map (\<lambda>r. (r, Suc (calls st))) (results p)\<rparr>)"
  have c: "Suc (calls st) = calls ?st2" by (simp add: sleep_def)
  have s': "serves ep (calls ?st2)
      (AList.update ''cursor'' (or_str (next_cursor p)) params) (q # ps)"
    using s by (simp add: sleep_def)
  have fe: "for_each collect (results p) (st\<lparr>calls := Suc (calls st)\<rparr>) =
      (Inr (), st\<lparr>calls := Suc (calls st),
         yielded := yielded st @ map (\<lambda>r. (r, Suc (calls st))) (results p)\<rparr>)"
    by (simp add: for_each_collect)
  have "cursor_loop fetch collect params st =
      cursor_loop fetch collect (AList.update ''cursor'' (or_str (next_cursor p)) params) ?st2"
    using cursor_loop_more [where fetch = fetch and params = params and st = st, OF f fe l]
    by simp
  also have "\<dots> = Some (Inr (), drained (q # ps) ?st2)"
    using "3.hyps" [OF c s' "3.prems"(2)] .
  also have "drained (q # ps) ?st2 = drained (p # q # ps) st"
    by (simp add: drained_def sleep_def)
  finally show ?case .
qed


lemma for_each_never_raises:
  assumes "\<forall>r st. fst (body r st) = Inr ()"
  shows "\<exists>st1. for_each body xs st = (Inr (), st1)"
proof (induction xs arbitrary: st)
  case Nil
  show ?case by simp
next
  case (Cons x xs)
  from assms obtain s1 where "body x st = (Inr (), s1)"
    by (metis fst_conv surj_pair)
  with Cons [of s1] show ?case by simp
qed

lemma cursor_loop_never:
  assumes fetch: "\<And>ps st. \<exists>d st1. fetch ps st = (Inr d, st1) \<and> truthy (next_cursor d)"
    and body: "\<forall>r st. fst (body r st) = Inr ()"
  shows "cursor_loop fetch body params st = None"
proof (rule ccontr)
  assume "cursor_loop fetch body params st \<noteq> None"
  then obtain y where y: "cursor_loop fetch body params st = Some y" by blast
  have "\<not> (fetch = fetch \<and> body = body)"
  proof (rule cursor_loop.raw_induct
      [where P = "\<lambda>f b p s y. \<not> (f = fetch \<and> b = body)", OF _ y])
    fix cl f b p s z
    assume IH: "\<And>f b p s z. cl f b p s = Some z \<Longrightarrow> \<not> (f = fetch \<and> b = body)"
      and step: "(case f p s of
          (Inl e, st1) \<Rightarrow> Some (Inl e, st1)
        | (Inr data, st1) \<Rightarrow>
            (case for_each b (results data) st1 of
               (Inl e, st2) \<Rightarrow> Some (Inl e, st2)
             | (Inr u, st2) \<Rightarrow>
                 (case next_cursor data of
                    None \<Rightarrow> Some (Inr (), st2)
                  | Some nxt \<Rightarrow>
                      if nxt = [] then Some (Inr (), st2)
                      else cl f b (AList.update ''cursor'' nxt p) (sleep PAGE_SLEEP st2)))) = Some z"
    show "\<not> (f = fetch \<and> b = body)"
    proof
      assume eq: "f = fetch \<and> b = body"
      from fetch [of p s] obtain d st1
        where d: "fetch p s = (Inr d, st1)" "truthy (next_cursor d)" by blast
      from for_each_never_raises [OF body] obtain st2
        where s2: "for_each body (results d) st1 = (Inr (), st2)" by blast
      from d(2) obtain nxt where n: "next_cursor d = Some nxt" "nxt \<noteq> []"
        by (auto simp: truthy_def split: option.splits)
      from step eq d(1) s2 n
      have "cl fetch body (AList.update ''cursor'' nxt p) (sleep PAGE_SLEEP st2) = Some z"
        by simp
      from IH [OF this] show False by simp
    qed
  qed
  then show False by simp
qed

lemma fetch_always_ok:
  assumes "\<forall>n ps. status_code (ep n ps) = 200 \<and> truthy (next_cursor (json (ep n ps)))"
    and "fetch = get_with_retry_conf ep \<or> fetch = get_with_retry_nust ep"
  shows "\<exists>d st1. fetch ps st = (Inr d, st1) \<and> truthy (next_cursor d)"
proof -
  from assms(1) have a: "status_code (ep (calls st) ps) = 200"
    and b: "truthy (next_cursor (json (ep (calls st) ps)))" by simp_all
  from assms(2) fetch_ok_conf [of ep st ps] fetch_ok_nust [of ep st ps] a
  have "fetch ps st = (Inr (json (ep (calls st) ps)), st\<lparr>calls := Suc (calls st)\<rparr>)"
    by auto
  with b show ?thesis by blast
qed

text \<open>
  C5 (as the code has it).  The paginators keep no record of the cursors they have used
  and stop only on an absent or empty next-cursor (or on an exception).  On a catalogue
  whose every answer is a 200 page with a non-empty next-cursor, in particular one that
  repeats the same token, and with a consumer that does not raise, none of the four
  paginators ever returns.
\<close>

theorem pagination_never_returns_without_last_page:
  assumes "\<forall>n ps. status_code (authors_api srv n ps) = 200
              \<and> truthy (next_cursor (json (authors_api srv n ps)))"
    and "\<forall>n ps. status_code (works_api srv n ps) = 200
              \<and> truthy (next_cursor (json (works_api srv n ps)))"
    and "\<forall>r st. fst (abody r st) = Inr ()"
    and "\<forall>r st. fst (wbody r st) = Inr ()"
  shows "iter_authors_conf srv cfg abody st = None
       \<and> iter_authors_nust srv cfg abody st = None
       \<and> iter_author_works_year srv cfg aid yr wbody st = None
       \<and> iter_author_works_2025 srv cfg aid wbody st = None"
proof -
  have "cursor_loop (get_with_retry_conf (authors_api srv)) abody (authors_params cfg) st = None"
    by (rule cursor_loop_never [OF fetch_always_ok [OF assms(1)] assms(3)]) simp
  moreover
  have "cursor_loop (get_with_retry_nust (authors_api srv)) abody (authors_params cfg) st = None"
    by (rule cursor_loop_never [OF fetch_always_ok [OF assms(1)] assms(3)]) simp
  moreover
  have "cursor_loop (get_with_retry_conf (works_api srv)) wbody
          (works_year_params cfg aid yr) st = None"
    by (rule cursor_loop_never [OF fetch_always_ok [OF assms(2)] assms(4)]) simp
  moreover
  have "cursor_loop (get_with_retry_nust (works_api srv)) wbody
          (works_2025_params cfg aid) st = None"
    by (rule cursor_loop_never [OF fetch_always_ok [OF assms(2)] assms(4)]) simp
  ultimately show ?thesis
    by (simp add: iter_authors_conf_def iter_authors_nust_def iter_author_works_year_def
        iter_author_works_2025_def)
qed

theorem pagination_never_returns_without_last_page_witness:
  "iter_authors_nust stuck_srv cfg0 discard world0 = None
   \<and> iter_author_works_year stuck_srv cfg0 ''A1'' 2024 discard world0 = None
   \<and> iter_author_works_2025 stuck_srv cfg0 ''A1'' discard world0 = None"
  using pagination_never_returns_without_last_page
      [of stuck_srv discard discard cfg0 world0 "''A1''" 2024]
  by (simp add: stuck_srv_def truthy_def discard_def)

text \<open>
  The claim as stated, that pagination terminates although a cursor repeats, fails: this
  catalogue answers every request with the next-cursor \<open>A\<close>, so the second request
  already carries a cursor that comes back, and the author paginator never returns.
\<close>

theorem repeated_cursor_counterexample:
  "iter_authors_conf stuck_srv cfg0 collect collector0 = None"
  unfolding iter_authors_conf_def
proof (rule cursor_loop_never)
  show "\<exists>d st1. get_with_retry_conf (authors_api stuck_srv) ps st = (Inr d, st1)
          \<and> truthy (next_cursor d)" for ps and st :: "author_json collector"
    by (rule fetch_always_ok [where ep = "authors_api stuck_srv"])
       (simp_all add: stuck_srv_def truthy_def)
  show "\<forall>r (st :: author_json collector). fst (collect r st) = Inr ()"
    by (simp add: collect_def)
qed

text \<open>
  C6.  When the catalogue serves a finite sequence of pages whose last page has an absent
  or empty next-cursor, each works paginator (and each author paginator) returns after
  exactly one request per page, with one pause between consecutive pages, having yielded
  the records of all pages in page order, each once, the records of a page before the
  request for the next page is issued.  The yielded records are the concatenation of the
  pages' results.
\<close>

theorem pagination_drains_pages:
  "(serves (works_api srv) (calls st) (works_year_params cfg aid yr) pages \<longrightarrow>
      iter_author_works_year srv cfg aid yr collect st = Some (Inr (), drained pages st))
   \<and> (serves (works_api srv) (calls st) (works_2025_params cfg aid) pages \<longrightarrow>
      iter_author_works_2025 srv cfg aid collect st = Some (Inr (), drained pages st))
   \<and> (serves (authors_api srv) (calls ast) (authors_params cfg) apages \<longrightarrow>
      iter_authors_conf srv cfg collect ast = Some (Inr (), drained apages ast)
      \<and> iter_authors_nust srv cfg collect ast = Some (Inr (), drained apages ast))
   \<and> map fst (stamped n pages) = concat (map results pages)"
proof -
  have "map fst (stamped n pages) = concat (map results pages)"
    by (induction pages arbitrary: n) (simp_all add: comp_def)
  moreover have "cursor_loop (get_with_retry_conf (works_api srv)) collect
        (works_year_params cfg aid yr) st = Some (Inr (), drained pages st)"
    if "serves (works_api srv) (calls st) (works_year_params cfg aid yr) pages"
    using that by (rule cursor_loop_drains) simp
  moreover have "cursor_loop (get_with_retry_nust (works_api srv)) collect
        (works_2025_params cfg aid) st = Some (Inr (), drained pages st)"
    if "serves (works_api srv) (calls st) (works_2025_params cfg aid) pages"
    using that by (rule cursor_loop_drains) simp
  moreover have "cursor_loop (get_with_retry_conf (authors_api srv)) collect
        (authors_params cfg) ast = Some (Inr (), drained apages ast)"
    if "serves (authors_api srv) (calls ast) (authors_params cfg) apages"
    using that by (rule cursor_loop_drains) simp
  moreover have "cursor_loop (get_with_retry_nust (authors_api srv)) collect
        (authors_params cfg) ast = Some (Inr (), drained apages ast)"
    if "serves (authors_api srv) (calls ast) (authors_params cfg) apages"
    using that by (rule cursor_loop_drains) simp
  ultimately show ?thesis
    by (simp add: iter_authors_conf_def iter_authors_nust_def iter_author_works_year_def
        iter_author_works_2025_def)
qed

theorem pagination_drains_pages_witness:
  "iter_author_works_2025 two_page_srv cfg0 ''A1'' collect collector0 =
     Some (Inr (), \<lparr>calls = 2, sleeps = [1 / 5], printed = [],
        yielded = [(demo_work ''W1'' [''A1''] 2025, 1), (demo_work ''W2'' [''A1''] 2025, 1),
                   (demo_work ''W3'' [''A1''] 2025, 2)]\<rparr>)"
  using pagination_drains_pages [of two_page_srv collector0 cfg0 "''A1''" 2025
      "[\<lparr>results = [demo_work ''W1'' [''A1''] 2025, demo_work ''W2'' [''A1''] 2025],
         next_cursor = Some ''c2''\<rparr>,
        \<lparr>results = [demo_work ''W3'' [''A1''] 2025], next_cursor = Some []\<rparr>]",
      THEN conjunct2, THEN conjunct1]
  by (simp add: two_page_srv_def collector0_def works_2025_params_def drained_def truthy_def
      or_str_def PAGE_SLEEP_def)

section \<open>Properties of the fact table\<close>

lemma fact_key_fact_of [simp]: "fact_key (fact_of a w) = (a, w_id w)"
  by (simp add: fact_key_def fact_of_def)

lemma ioi_keys: "set (map fact_key (insert_or_ignore_fact r rows)) = insert (fact_key r) (set (map fact_key rows))"
  by (auto simp: insert_or_ignore_fact_def)

lemma ioi_distinct: "distinct (map fact_key rows) \<Longrightarrow> distinct (map fact_key (insert_or_ignore_fact r rows))"
  by (auto simp: insert_or_ignore_fact_def)

lemma ioi_keep: "k \<in> set (map fact_key rows) \<Longrightarrow> rows_for k (insert_or_ignore_fact r rows) = rows_for k rows"
  by (auto simp: insert_or_ignore_fact_def rows_for_def)

lemma ioi_new:
  assumes "fact_key r \<notin> set (map fact_key rows)"
  shows "rows_for (fact_key r) (insert_or_ignore_fact r rows) = [r]"
proof -
  have "filter (\<lambda>x. fact_key x = fact_key r) rows = []"
    using assms by (auto simp: filter_empty_conv image_iff)
  with assms show ?thesis by (simp add: insert_or_ignore_fact_def rows_for_def)
qed

lemma ioi_other: "fact_key r \<noteq> k \<Longrightarrow> rows_for k (insert_or_ignore_fact r rows) = rows_for k rows"
  by (auto simp: insert_or_ignore_fact_def rows_for_def)

lemma loop_step:
  "upsert_fact_loop w (au # aus) rows =
     (let aid = (case au_author au of None \<Rightarrow> None | Some a \<Rightarrow> ref_id a)
      in if truthy aid then upsert_fact_loop w aus (insert_or_ignore_fact (fact_of (or_str aid) w) rows)
         else upsert_fact_loop w aus rows)"
  by (simp add: Let_def fact_of_def)

lemma au_ids_Cons:
  "au_ids (au # aus) =
     (let aid = (case au_author au of None \<Rightarrow> None | Some a \<Rightarrow> ref_id a)
      in if truthy aid then or_str aid # au_ids aus else au_ids aus)"
  by (simp add: au_ids_def Let_def)

lemma loop_keys:
  "set (map fact_key (upsert_fact_loop w aus rows)) =
     set (map fact_key rows) \<union> (\<lambda>a. (a, w_id w)) ` set (au_ids aus)"
proof (induction aus arbitrary: rows)
  case Nil
  show ?case by (simp add: au_ids_def)
next
  case (Cons au aus)
  show ?case
    unfolding loop_step au_ids_Cons Let_def
    by (simp add: Cons.IH ioi_keys del: upsert_fact_loop.simps set_map)
qed

lemma loop_distinct:
  "distinct (map fact_key rows) \<Longrightarrow> distinct (map fact_key (upsert_fact_loop w aus rows))"
proof (induction aus arbitrary: rows)
  case Nil
  then show ?case by simp
next
  case (Cons au aus)
  show ?case
    unfolding loop_step Let_def
    using Cons.IH Cons.prems ioi_distinct by (simp del: upsert_fact_loop.simps)
qed

lemma loop_keep:
  "k \<in> set (map fact_key rows) \<Longrightarrow> rows_for k (upsert_fact_loop w aus rows) = rows_for k rows"
proof (induction aus arbitrary: rows)
  case Nil
  then show ?case by simp
next
  case (Cons au aus)
  let ?aid = "case au_author au of None \<Rightarrow> None | Some a \<Rightarrow> ref_id a"
  let ?rows = "insert_or_ignore_fact (fact_of (or_str ?aid) w) rows"
  have "k \<in> set (map fact_key ?rows)" using Cons.prems ioi_keys by fast
  from Cons.IH [OF this] Cons.IH [OF Cons.prems] ioi_keep [OF Cons.prems]
  show ?case unfolding loop_step Let_def by (simp del: upsert_fact_loop.simps)
qed

lemma loop_other:
  "snd k \<noteq> w_id w \<or> fst k \<notin> set (au_ids aus) \<Longrightarrow>
   rows_for k (upsert_fact_loop w aus rows) = rows_for k rows"
proof (induction aus arbitrary: rows)
  case Nil
  then show ?case by simp
next
  case (Cons au aus)
  let ?aid = "case au_author au of None \<Rightarrow> None | Some a \<Rightarrow> ref_id a"
  show ?case
  proof (cases "truthy ?aid")
    case False
    with Cons show ?thesis unfolding loop_step au_ids_Cons Let_def
      by (simp del: upsert_fact_loop.simps)
  next
    case True
    with Cons.prems have ne: "fact_key (fact_of (or_str ?aid) w) \<noteq> k"
      and rest: "snd k \<noteq> w_id w \<or> fst k \<notin> set (au_ids aus)"
      unfolding au_ids_Cons Let_def by auto
    from True Cons.IH [OF rest] ioi_other [OF ne] show ?thesis
      unfolding loop_step Let_def by (simp del: upsert_fact_loop.simps)
  qed
qed

lemma loop_new:
  "(aid, w_id w) \<notin> set (map fact_key rows) \<Longrightarrow> aid \<in> set (au_ids aus) \<Longrightarrow>
   rows_for (aid, w_id w) (upsert_fact_loop w aus rows) = [fact_of aid w]"
proof (induction aus arbitrary: rows)
  case Nil
  then show ?case by (simp add: au_ids_def)
next
  case (Cons au aus)
  let ?aid = "case au_author au of None \<Rightarrow> None | Some a \<Rightarrow> ref_id a"
  let ?rows = "insert_or_ignore_fact (fact_of (or_str ?aid) w) rows"
  show ?case
  proof (cases "truthy ?aid")
    case False
    with Cons show ?thesis unfolding loop_step au_ids_Cons Let_def
      by (simp del: upsert_fact_loop.simps)
  next
    case True
    show ?thesis
    proof (cases "or_str ?aid = aid")
      case same: True
      have k: "(aid, w_id w) \<in> set (map fact_key ?rows)"
        using same ioi_keys [of "fact_of (or_str ?aid) w" rows] by simp
      have "rows_for (aid, w_id w) ?rows = [fact_of aid w]"
        using ioi_new [of "fact_of aid w" rows] Cons.prems(1) same by simp
      with loop_keep [OF k] True show ?thesis
        unfolding loop_step Let_def by (simp del: upsert_fact_loop.simps)
    next
      case diff: False
      have nk: "(aid, w_id w) \<notin> set (map fact_key ?rows)"
        using diff Cons.prems(1) ioi_keys [of "fact_of (or_str ?aid) w" rows] by simp
      have mem: "aid \<in> set (au_ids aus)"
        using Cons.prems(2) diff True unfolding au_ids_Cons Let_def by auto
      from Cons.IH [OF nk mem] True show ?thesis
        unfolding loop_step Let_def by (simp del: upsert_fact_loop.simps)
    qed
  qed
qed

lemma conf_work_body_facts:
  "fst (conf_work_body w st) = Inr ()"
  "fact_authorships_works (db (snd (conf_work_body w st))) =
     upsert_fact_loop w (w_authorships w) (fact_authorships_works (db st))"
  by (simp_all add: conf_work_body_def Let_def upsert_fact_def upsert_work_conf_def)

lemma facts_after_Nil: "facts_after [] st = fact_authorships_works (db st)"
  by (simp add: facts_after_def)

lemma facts_after_Cons:
  "facts_after (w # ws) st = facts_after ws (snd (conf_work_body w st))"
  using conf_work_body_facts(1) [of w st]
  by (cases "conf_work_body w st") (simp add: facts_after_def)

lemma facts_after_keep:
  "k \<in> set (map fact_key (fact_authorships_works (db st))) \<Longrightarrow>
   rows_for k (facts_after ws st) = rows_for k (fact_authorships_works (db st))"
proof (induction ws arbitrary: st)
  case Nil
  show ?case by (simp add: facts_after_Nil)
next
  case (Cons w ws)
  let ?st = "snd (conf_work_body w st)"
  have k: "k \<in> set (map fact_key (fact_authorships_works (db ?st)))"
    using Cons.prems unfolding conf_work_body_facts(2) loop_keys by simp
  show ?case
    unfolding facts_after_Cons Cons.IH [OF k] conf_work_body_facts(2)
    using loop_keep [OF Cons.prems] .
qed

lemma facts_after_distinct:
  "distinct (map fact_key (fact_authorships_works (db st))) \<Longrightarrow>
   distinct (map fact_key (facts_after ws st))"
proof (induction ws arbitrary: st)
  case Nil
  then show ?case by (simp add: facts_after_Nil)
next
  case (Cons w ws)
  show ?case
    unfolding facts_after_Cons
    by (rule Cons.IH) (simp add: conf_work_body_facts(2) loop_distinct Cons.prems)
qed

lemma facts_after_first:
  assumes "(aid, wid) \<notin> set (map fact_key (fact_authorships_works (db st)))"
    and "find (observes aid wid) ws = Some v"
  shows "rows_for (aid, wid) (facts_after ws st) = [fact_of aid v]"
  using assms
proof (induction ws arbitrary: st)
  case Nil
  then show ?case by simp
next
  case (Cons w ws)
  let ?st = "snd (conf_work_body w st)"
  show ?case
  proof (cases "observes aid wid w")
    case True
    with Cons.prems(2) have v: "v = w" by simp
    from True have wid: "w_id w = wid" and mem: "aid \<in> set (au_ids (w_authorships w))"
      by (simp_all add: observes_def fact_authors_def)
    have new: "rows_for (aid, wid) (fact_authorships_works (db ?st)) = [fact_of aid w]"
      unfolding conf_work_body_facts(2)
      using loop_new [of aid w "fact_authorships_works (db st)" "w_authorships w"]
        Cons.prems(1) mem wid by simp
    have k: "(aid, wid) \<in> set (map fact_key (fact_authorships_works (db ?st)))"
      unfolding conf_work_body_facts(2) loop_keys using mem wid by auto
    show ?thesis
      unfolding facts_after_Cons facts_after_keep [OF k] new v ..
  next
    case False
    with Cons.prems(2) have f: "find (observes aid wid) ws = Some v" by simp
    from False have o: "snd (aid, wid) \<noteq> w_id w \<or> fst (aid, wid) \<notin> set (au_ids (w_authorships w))"
      by (auto simp: observes_def fact_authors_def)
    have nk: "(aid, wid) \<notin> set (map fact_key (fact_authorships_works (db ?st)))"
      unfolding conf_work_body_facts(2) loop_keys using Cons.prems(1) o by auto
    show ?thesis
      unfolding facts_after_Cons using Cons.IH [OF nk f] .
  qed
qed

lemma rows_for_unique:
  assumes "distinct (map fact_key rows)" and "k \<in> set (map fact_key rows)"
  shows "length (rows_for k rows) = 1"
  using assms
proof (induction rows)
  case Nil
  then show ?case by simp
next
  case (Cons r rows)
  show ?case
  proof (cases "fact_key r = k")
    case True
    with Cons.prems(1) have "filter (\<lambda>x. fact_key x = k) rows = []"
      by (auto simp: filter_empty_conv image_iff)
    with True show ?thesis by (simp add: rows_for_def)
  next
    case False
    with Cons show ?thesis by (auto simp: rows_for_def)
  qed
qed

text \<open>
  C8.  The fact table holds one row per (author id, work id).  Starting from a table in
  which the pairs are unique, after the work loop has run on any sequence of works in
  which the pair is observed at least once, exactly one row has that pair; if the pair
  was stored before, its row is unchanged, and otherwise its year and venue type are
  those of the first work of the sequence that observes the pair, whatever later
  observations carry.
\<close>

theorem fact_unique_first_write_wins:
  assumes "distinct (map fact_key (fact_authorships_works (db st)))"
    and "w \<in> set ws" and "observes aid wid w"
  shows "length (rows_for (aid, wid) (facts_after ws st)) = 1
    \<and> ((aid, wid) \<in> set (map fact_key (fact_authorships_works (db st))) \<longrightarrow>
         rows_for (aid, wid) (facts_after ws st) =
           rows_for (aid, wid) (fact_authorships_works (db st)))
    \<and> ((aid, wid) \<notin> set (map fact_key (fact_authorships_works (db st))) \<longrightarrow>
         (\<exists>v. find (observes aid wid) ws = Some v
            \<and> rows_for (aid, wid) (facts_after ws st) = [fact_of aid v]))"
proof -
  from assms(2,3) obtain v where v: "find (observes aid wid) ws = Some v"
    by (cases "find (observes aid wid) ws") (auto simp: find_None_iff)
  show ?thesis
  proof (cases "(aid, wid) \<in> set (map fact_key (fact_authorships_works (db st)))")
    case True
    from facts_after_keep [OF True, of ws] rows_for_unique [OF assms(1) True] True
    show ?thesis by simp
  next
    case False
    from facts_after_first [OF False v] v False show ?thesis by simp
  qed
qed

lemma demo_work_venue: "classify_venue_type (demo_work wid aids yr) = ''journal''"
  by (simp add: classify_venue_type_def demo_work_def or_str_def lower_def lower_char_def
      strip_def)

lemma demo_work_authors:
  "fact_authors (demo_work wid aids yr) = filter (\<lambda>a. a \<noteq> []) aids"
  by (induction aids)
     (simp_all add: fact_authors_def au_ids_def demo_work_def truthy_def or_str_def)

theorem fact_unique_first_write_wins_witness:
  "rows_for (''A1'', ''W1'')
     (facts_after [demo_work ''W1'' [''A1'', ''A2''] 2024, demo_work ''W1'' [''A1''] 2025]
        conf_state0) =
     [\<lparr>f_author_id = ''A1'', f_work_id = ''W1'', f_year = Some 2024,
       f_venue_type = ''journal''\<rparr>]"
  using fact_unique_first_write_wins
    [of conf_state0 "demo_work ''W1'' [''A1'', ''A2''] 2024"
        "[demo_work ''W1'' [''A1'', ''A2''] 2024, demo_work ''W1'' [''A1''] 2025]"
        "''A1''" "''W1''"]
  by (simp add: conf_state0_def observes_def demo_work_authors demo_work_venue fact_of_def)
     (simp add: demo_work_def)

section \<open>Properties of the topic cache and of the topic upsert\<close>

lemma retry_loop_frame:
  "\<exists>c s. snd (get_with_retry_loop ep ps d t st) = st\<lparr>calls := c, sleeps := s\<rparr> \<and> calls st < c"
proof (induction ep ps d t st rule: get_with_retry_loop.induct)
  case (1 ep params delay tries st)
  let ?resp = "ep (calls st) params"
  let ?st1 = "st\<lparr>calls := Suc (calls st)\<rparr>"
  show ?case
  proof (cases "transient (status_code ?resp) \<and> status_code ?resp \<noteq> 200
        \<and> \<not> tries + 1 > RETRY_MAX")
    case True
    then have a: "status_code ?resp \<noteq> 200" "status_code ?resp \<notin> {403, 404, 422}"
      "status_code ?resp \<in> {429, 500, 502, 503, 504}" "\<not> RETRY_MAX < tries + 1"
      by (auto simp: transient_def)
    from "1.IH" [OF refl refl a]
    obtain c s where cs: "snd (get_with_retry_loop ep params (delay * RETRY_BACKOFF) (tries + 1)
        (sleep delay ?st1)) = (sleep delay ?st1)\<lparr>calls := c, sleeps := s\<rparr>"
        "calls (sleep delay ?st1) < c" by blast
    have "get_with_retry_loop ep params delay tries st =
        get_with_retry_loop ep params (delay * RETRY_BACKOFF) (tries + 1) (sleep delay ?st1)"
      using a by (subst get_with_retry_loop.simps) (simp add: Let_def)
    with cs show ?thesis
      by (intro exI [of _ c] exI [of _ s]) (simp add: sleep_def)
  next
    case False
    then have "snd (get_with_retry_loop ep params delay tries st) = ?st1"
      by (subst get_with_retry_loop.simps) (auto simp: Let_def transient_def)
    then show ?thesis
      by (intro exI [of _ "Suc (calls st)"] exI [of _ "sleeps st"]) simp
  qed
qed

lemma retry_loop_ok_source:
  "get_with_retry_loop ep ps d t st = (Inr b, st') \<Longrightarrow>
   \<exists>n. calls st \<le> n \<and> n < calls st' \<and> status_code (ep n ps) = 200 \<and> json (ep n ps) = b"
proof (induction ep ps d t st rule: get_with_retry_loop.induct)
  case (1 ep params delay tries st)
  let ?resp = "ep (calls st) params"
  let ?st1 = "st\<lparr>calls := Suc (calls st)\<rparr>"
  show ?case
  proof (cases "status_code ?resp = 200")
    case True
    with "1.prems" have "b = json ?resp" "st' = ?st1"
      by (subst (asm) get_with_retry_loop.simps, simp add: Let_def)+
    with True show ?thesis by (intro exI [of _ "calls st"]) simp
  next
    case False
    show ?thesis
    proof (cases "transient (status_code ?resp) \<and> \<not> tries + 1 > RETRY_MAX")
      case True
      with False have a: "status_code ?resp \<noteq> 200" "status_code ?resp \<notin> {403, 404, 422}"
        "status_code ?resp \<in> {429, 500, 502, 503, 504}" "\<not> RETRY_MAX < tries + 1"
        by (auto simp: transient_def)
      have "get_with_retry_loop ep params delay tries st =
          get_with_retry_loop ep params (delay * RETRY_BACKOFF) (tries + 1) (sleep delay ?st1)"
        using a by (subst get_with_retry_loop.simps) (simp add: Let_def)
      with "1.prems" have "get_with_retry_loop ep params (delay * RETRY_BACKOFF) (tries + 1)
          (sleep delay ?st1) = (Inr b, st')" by simp
      from "1.IH" [OF refl refl a this]
      obtain n where "calls (sleep delay ?st1) \<le> n" "n < calls st'"
        "status_code (ep n params) = 200" "json (ep n params) = b" by blast
      then show ?thesis by (intro exI [of _ n]) (simp add: sleep_def)
    next
      case nt: False
      with False have "\<exists>e. fst (get_with_retry_loop ep params delay tries st) = Inl e"
        by (subst get_with_retry_loop.simps) (auto simp: Let_def transient_def)
      with "1.prems" show ?thesis by simp
    qed
  qed
qed

lemma fetch_nust_frame:
  "\<exists>c s. snd (get_with_retry_nust ep ps st) = st\<lparr>calls := c, sleeps := s\<rparr> \<and> calls st < c"
  unfolding get_with_retry_nust_def by (rule retry_loop_frame)

lemma fetch_nust_ok_source:
  "get_with_retry_nust ep ps st = (Inr b, st') \<Longrightarrow>
   \<exists>n. calls st \<le> n \<and> n < calls st' \<and> status_code (ep n ps) = 200 \<and> json (ep n ps) = b"
  unfolding get_with_retry_nust_def by (rule retry_loop_ok_source)

lemma retry_loop_error:
  "get_with_retry_loop ep ps d t st = (Inl e, st') \<Longrightarrow> \<exists>x c. e = HTTPError x c"
proof (induction ep ps d t st rule: get_with_retry_loop.induct)
  case (1 ep params delay tries st)
  let ?resp = "ep (calls st) params"
  let ?st1 = "st\<lparr>calls := Suc (calls st)\<rparr>"
  show ?case
  proof (cases "transient (status_code ?resp) \<and> status_code ?resp \<noteq> 200
        \<and> \<not> tries + 1 > RETRY_MAX")
    case True
    then have a: "status_code ?resp \<noteq> 200" "status_code ?resp \<notin> {403, 404, 422}"
      "status_code ?resp \<in> {429, 500, 502, 503, 504}" "\<not> RETRY_MAX < tries + 1"
      by (auto simp: transient_def)
    have "get_with_retry_loop ep params delay tries st =
        get_with_retry_loop ep params (delay * RETRY_BACKOFF) (tries + 1) (sleep delay ?st1)"
      using a by (subst get_with_retry_loop.simps) (simp add: Let_def)
    with "1.prems" have "get_with_retry_loop ep params (delay * RETRY_BACKOFF) (tries + 1)
          (sleep delay ?st1) = (Inl e, st')" by simp
    from "1.IH" [OF refl refl a this] show ?thesis .
  next
    case False
    from "1.prems" have "(let resp = ep (calls st) params; st1 = st\<lparr>calls := Suc (calls st)\<rparr>
      in if status_code resp = 200 then (Inr (json resp), st1)
         else if status_code resp \<in> {403, 404, 422}
           then (Inl (HTTPError False (status_code resp)), st1)
         else if status_code resp \<in> {429, 500, 502, 503, 504}
           then (if tries + 1 > RETRY_MAX
                 then (Inl (HTTPError True (status_code resp)), st1)
                 else get_with_retry_loop ep params (delay * RETRY_BACKOFF) (tries + 1)
                        (sleep delay st1))
         else (Inl (HTTPError False (status_code resp)), st1)) = (Inl e, st')"
      by (subst (asm) get_with_retry_loop.simps)
    with False show ?thesis
      by (auto simp: Let_def transient_def split: if_splits)
  qed
qed

lemma fetch_nust_error:
  "get_with_retry_nust ep ps st = (Inl e, st') \<Longrightarrow> \<exists>x c. e = HTTPError x c"
  unfolding get_with_retry_nust_def by (rule retry_loop_error)

lemma get_topic_details_hit:
  "topic_cache st tid = Some d \<Longrightarrow> get_topic_details srv tid st = (Inr d, st)"
  by (simp add: get_topic_details_def)

lemma get_topic_details_miss:
  assumes "topic_cache st tid = None"
  shows "get_topic_details srv tid st =
     (case get_with_retry_nust (topics_api srv (last_segment tid)) topic_params st of
        (Inl e, st1) \<Rightarrow> (Inl e, st1)
      | (Inr obj, st1) \<Rightarrow>
          (Inr (normalized obj),
           st1\<lparr>topic_cache := (topic_cache st1)(tid \<mapsto> normalized obj)\<rparr>))"
  using assms by (simp add: get_topic_details_def)

lemma get_topic_details_frame:
  "\<exists>c s tc. snd (get_topic_details srv tid st) = st\<lparr>calls := c, sleeps := s, topic_cache := tc\<rparr>
      \<and> calls st \<le> c"
proof (cases "topic_cache st tid")
  case (Some d)
  then show ?thesis
    by (intro exI [of _ "calls st"] exI [of _ "sleeps st"] exI [of _ "topic_cache st"])
       (simp add: get_topic_details_hit)
next
  case None
  let ?f = "get_with_retry_nust (topics_api srv (last_segment tid)) topic_params st"
  from fetch_nust_frame [of "topics_api srv (last_segment tid)" topic_params st]
  obtain c s where cs: "snd ?f = st\<lparr>calls := c, sleeps := s\<rparr>" "calls st < c" by blast
  show ?thesis
  proof (cases ?f)
    case (Pair r st1)
    with cs have st1: "st1 = st\<lparr>calls := c, sleeps := s\<rparr>" by simp
    show ?thesis
    proof (cases r)
      case (Inl e)
      with Pair st1 cs(2) show ?thesis
        unfolding get_topic_details_miss [OF None]
        by (intro exI [of _ c] exI [of _ s] exI [of _ "topic_cache st"]) simp
    next
      case (Inr obj)
      with Pair st1 cs(2) show ?thesis
        unfolding get_topic_details_miss [OF None]
        by (intro exI [of _ c] exI [of _ s]
              exI [of _ "(topic_cache st)(tid \<mapsto> normalized obj)"]) simp
    qed
  qed
qed

lemma get_topic_details_failure:
  assumes "get_topic_details srv tid st = (Inl e, st')"
  shows "topic_cache st' = topic_cache st \<and> topic_cache st' tid = None"
proof (cases "topic_cache st tid")
  case (Some d)
  with assms show ?thesis by (simp add: get_topic_details_hit)
next
  case None
  let ?f = "get_with_retry_nust (topics_api srv (last_segment tid)) topic_params st"
  from fetch_nust_frame [of "topics_api srv (last_segment tid)" topic_params st]
  obtain c s where cs: "snd ?f = st\<lparr>calls := c, sleeps := s\<rparr>" by blast
  from assms have "?f = (Inl e, st')"
    unfolding get_topic_details_miss [OF None] by (auto split: prod.splits sum.splits)
  with cs have "st' = st\<lparr>calls := c, sleeps := s\<rparr>" by simp
  with None show ?thesis by simp
qed

lemma get_topic_details_miss_calls:
  assumes "topic_cache st tid = None"
  shows "calls st < calls (snd (get_topic_details srv tid st))"
proof -
  let ?f = "get_with_retry_nust (topics_api srv (last_segment tid)) topic_params st"
  from fetch_nust_frame [of "topics_api srv (last_segment tid)" topic_params st]
  obtain c s where cs: "snd ?f = st\<lparr>calls := c, sleeps := s\<rparr>" "calls st < c" by blast
  then show ?thesis
    unfolding get_topic_details_miss [OF assms]
    by (cases ?f) (auto split: sum.splits)
qed

lemma cache_resolved_mono:
  assumes "cache_resolved srv st" and "topic_cache st' = topic_cache st" and "calls st \<le> calls st'"
  shows "cache_resolved srv st'"
  using assms unfolding cache_resolved_def by (metis less_le_trans)

lemma get_topic_details_resolved:
  assumes "cache_resolved srv st"
  shows "cache_resolved srv (snd (get_topic_details srv tid st))"
proof (cases "topic_cache st tid")
  case (Some d)
  with assms show ?thesis by (simp add: get_topic_details_hit)
next
  case None
  let ?ep = "topics_api srv (last_segment tid)"
  let ?f = "get_with_retry_nust ?ep topic_params st"
  from fetch_nust_frame [of ?ep topic_params st]
  obtain c s where cs: "snd ?f = st\<lparr>calls := c, sleeps := s\<rparr>" "calls st < c" by blast
  show ?thesis
  proof (cases ?f)
    case (Pair r st1)
    with cs have st1: "st1 = st\<lparr>calls := c, sleeps := s\<rparr>" by simp
    show ?thesis
    proof (cases r)
      case (Inl e)
      have "cache_resolved srv st1"
        by (rule cache_resolved_mono [OF assms]) (use st1 cs(2) in simp_all)
      with Pair Inl show ?thesis unfolding get_topic_details_miss [OF None] by simp
    next
      case (Inr obj)
      from fetch_nust_ok_source [of ?ep topic_params st obj st1] Pair Inr
      obtain n where n: "n < calls st1" "status_code (?ep n topic_params) = 200"
        "json (?ep n topic_params) = obj" by auto
      have old: "cache_resolved srv st1"
        by (rule cache_resolved_mono [OF assms]) (use st1 cs(2) in simp_all)
      have "cache_resolved srv (st1\<lparr>topic_cache := (topic_cache st1)(tid \<mapsto> normalized obj)\<rparr>)"
        unfolding cache_resolved_def
      proof (intro allI impI)
        fix x d
        assume a: "topic_cache (st1\<lparr>topic_cache := (topic_cache st1)(tid \<mapsto> normalized obj)\<rparr>) x
            = Some d"
        show "\<exists>n<calls (st1\<lparr>topic_cache := (topic_cache st1)(tid \<mapsto> normalized obj)\<rparr>).
            status_code (topics_api srv (last_segment x) n topic_params) = 200 \<and>
            d = normalized (json (topics_api srv (last_segment x) n topic_params))"
        proof (cases "x = tid")
          case True
          with a have "d = normalized obj" by simp
          with n True show ?thesis by auto
        next
          case False
          with a have "topic_cache st1 x = Some d" by simp
          with old show ?thesis unfolding cache_resolved_def by simp
        qed
      qed
      with Pair Inr show ?thesis unfolding get_topic_details_miss [OF None] by simp
    qed
  qed
qed

lemma topic_values_complete:
  assumes "t_field t \<noteq> None" and "t_domain t \<noteq> None"
  shows "topic_values srv tid t st =
     (Inr (topic_binding (t_display_name t) (t_subfield t) (t_field t) (t_domain t)), st)"
  using assms by (auto simp: topic_values_def Let_def)

lemma topic_values_incomplete:
  assumes "t_field t = None \<or> t_domain t = None"
  shows "topic_values srv tid t st =
     (case get_topic_details srv tid st of
        (Inr full, st1) \<Rightarrow>
          (Inr (topic_binding
                  (if truthy (t_display_name t) then t_display_name t else d_display_name full)
                  (py_or (t_subfield t) (d_subfield full))
                  (py_or (t_field t) (d_field full))
                  (py_or (t_domain t) (d_domain full))), st1)
      | (Inl (HTTPError x c), st1) \<Rightarrow>
          (Inr (topic_binding (t_display_name t) (t_subfield t) (t_field t) (t_domain t)),
           print (Warning_topic_enrich_failed tid (HTTPError x c)) st1)
      | (Inl IntegrityError, st1) \<Rightarrow> (Inl IntegrityError, st1))"
  using assms by (auto simp: topic_values_def Let_def)

lemma topic_values_state:
  "snd (topic_values srv tid t st) = st
   \<or> (\<exists>pr. snd (topic_values srv tid t st) = (snd (get_topic_details srv tid st))\<lparr>printed := pr\<rparr>)"
proof (cases "t_field t \<noteq> None \<and> t_domain t \<noteq> None")
  case True
  then show ?thesis by (simp add: topic_values_complete)
next
  case False
  then have inc: "t_field t = None \<or> t_domain t = None" by simp
  note tv = topic_values_incomplete [OF inc]
  obtain r st1 where g: "get_topic_details srv tid st = (r, st1)"
    by (cases "get_topic_details srv tid st")
  have "\<exists>pr. snd (topic_values srv tid t st) = st1\<lparr>printed := pr\<rparr>"
  proof (cases r)
    case (Inr full)
    with g show ?thesis
      by (intro exI [of _ "printed st1"]) (simp add: tv)
  next
    case (Inl e)
    show ?thesis
    proof (cases e)
      case (HTTPError x c)
      with g Inl show ?thesis
        by (intro exI [of _ "printed st1 @ [Warning_topic_enrich_failed tid (HTTPError x c)]"])
           (simp add: tv print_def)
    next
      case IntegrityError
      with g Inl show ?thesis
        by (intro exI [of _ "printed st1"]) (simp add: tv)
    qed
  qed
  with g show ?thesis by simp
qed

lemma topic_values_frame:
  "\<exists>c s pr tc. snd (topic_values srv tid t st) =
       st\<lparr>calls := c, sleeps := s, printed := pr, topic_cache := tc\<rparr>"
proof -
  from get_topic_details_frame [of srv tid st]
  obtain c s tc where g: "snd (get_topic_details srv tid st) =
      st\<lparr>calls := c, sleeps := s, topic_cache := tc\<rparr>" by blast
  from topic_values_state [of srv tid t st] show ?thesis
  proof
    assume "snd (topic_values srv tid t st) = st"
    then show ?thesis
      by (intro exI [of _ "calls st"] exI [of _ "sleeps st"] exI [of _ "printed st"]
            exI [of _ "topic_cache st"]) simp
  next
    assume "\<exists>pr. snd (topic_values srv tid t st) =
        (snd (get_topic_details srv tid st))\<lparr>printed := pr\<rparr>"
    then obtain pr where "snd (topic_values srv tid t st) =
        (snd (get_topic_details srv tid st))\<lparr>printed := pr\<rparr>" by blast
    with g show ?thesis
      by (intro exI [of _ c] exI [of _ s] exI [of _ pr] exI [of _ tc]) simp
  qed
qed

lemma topic_values_ndb: "ndb (snd (topic_values srv tid t st)) = ndb st"
proof -
  from topic_values_frame [of srv tid t st] obtain c s pr tc
    where "snd (topic_values srv tid t st) =
       st\<lparr>calls := c, sleeps := s, printed := pr, topic_cache := tc\<rparr>" by blast
  then show ?thesis by simp
qed

lemma topic_values_resolved:
  assumes "cache_resolved srv st"
  shows "cache_resolved srv (snd (topic_values srv tid t st))"
proof -
  from topic_values_state [of srv tid t st] show ?thesis
  proof
    assume "snd (topic_values srv tid t st) = st"
    with assms show ?thesis by simp
  next
    assume "\<exists>pr. snd (topic_values srv tid t st) =
        (snd (get_topic_details srv tid st))\<lparr>printed := pr\<rparr>"
    then obtain pr where p: "snd (topic_values srv tid t st) =
        (snd (get_topic_details srv tid st))\<lparr>printed := pr\<rparr>" by blast
    show ?thesis
      unfolding p
      by (rule cache_resolved_mono [OF get_topic_details_resolved [OF assms, of tid]]) simp_all
  qed
qed

lemma upsert_topic_state:
  assumes "t_id t = Some tid"
  shows "snd (upsert_topic srv t st) = snd (topic_values srv tid t st)
     \<or> (\<exists>tbl. snd (upsert_topic srv t st) =
           (snd (topic_values srv tid t st))\<lparr>ndb :=
              (ndb (snd (topic_values srv tid t st)))\<lparr>topics := tbl\<rparr>\<rparr>)"
  using assms
  by (auto simp: upsert_topic_def split: prod.splits sum.splits)

lemma upsert_topic_no_id: "t_id t = None \<Longrightarrow> upsert_topic srv t st = (Inr None, st)"
  by (simp add: upsert_topic_def)

lemma upsert_topic_resolved:
  assumes "cache_resolved srv st"
  shows "cache_resolved srv (snd (upsert_topic srv t st))"
proof (cases "t_id t")
  case None
  with assms show ?thesis by (simp add: upsert_topic_no_id)
next
  case (Some tid)
  have tv: "cache_resolved srv (snd (topic_values srv tid t st))"
    by (rule topic_values_resolved [OF assms])
  from upsert_topic_state [OF Some, of srv st] show ?thesis
  proof
    assume "snd (upsert_topic srv t st) = snd (topic_values srv tid t st)"
    with tv show ?thesis by simp
  next
    assume "\<exists>tbl. snd (upsert_topic srv t st) =
           (snd (topic_values srv tid t st))\<lparr>ndb :=
              (ndb (snd (topic_values srv tid t st)))\<lparr>topics := tbl\<rparr>\<rparr>"
    then obtain tbl where p: "snd (upsert_topic srv t st) =
           (snd (topic_values srv tid t st))\<lparr>ndb :=
              (ndb (snd (topic_values srv tid t st)))\<lparr>topics := tbl\<rparr>\<rparr>" by blast
    show ?thesis unfolding p by (rule cache_resolved_mono [OF tv]) simp_all
  qed
qed

lemma upsert_topic_failed_enrichment_cache:
  assumes "t_id t = Some tid" and "get_topic_details srv tid st = (Inl e, st')"
  shows "topic_cache (snd (upsert_topic srv t st)) = topic_cache st"
proof -
  from get_topic_details_failure [OF assms(2)] have c: "topic_cache st' = topic_cache st" by simp
  have tv: "topic_cache (snd (topic_values srv tid t st)) = topic_cache st"
    using topic_values_state [of srv tid t st] assms(2) c by auto
  from upsert_topic_state [OF assms(1), of srv st] tv show ?thesis by auto
qed

text \<open>
  C10.  A failed topic fetch is never cached.  When \<^verbatim>\<open>get_topic_details\<close> raises, the
  cache is what it was and has no entry for the topic; a resolve of a topic that is not
  cached always issues a request, so a later resolve of the same id tries the network
  again; and the cache only ever holds normalised bodies of 200 responses, an invariant
  that \<^verbatim>\<open>get_topic_details\<close> and \<^verbatim>\<open>upsert_topic\<close> preserve.  An \<^verbatim>\<open>upsert_topic\<close> whose
  enrichment fails leaves the cache unchanged.
\<close>

theorem failed_topic_fetch_not_cached:
  "(get_topic_details srv tid st = (Inl e, st') \<longrightarrow>
      topic_cache st' = topic_cache st \<and> topic_cache st' tid = None)
   \<and> (topic_cache st tid = None \<longrightarrow> calls st < calls (snd (get_topic_details srv tid st)))
   \<and> (cache_resolved srv st \<longrightarrow> cache_resolved srv (snd (get_topic_details srv tid st)))
   \<and> (cache_resolved srv st \<longrightarrow> cache_resolved srv (snd (upsert_topic srv t st)))
   \<and> (t_id t = Some tid \<longrightarrow> get_topic_details srv tid st = (Inl e, st') \<longrightarrow>
        topic_cache (snd (upsert_topic srv t st)) = topic_cache st)"
  using get_topic_details_failure get_topic_details_miss_calls get_topic_details_resolved
    upsert_topic_resolved upsert_topic_failed_enrichment_cache
  by blast

lemma topics_upsert_null_name:
  "tr_display_name e = None \<Longrightarrow> topics_upsert tid e tbl = Inl IntegrityError"
  by (simp add: topics_upsert_def)

lemma topics_upsert_ok:
  assumes "tr_display_name e \<noteq> None"
  shows "\<exists>r. topics_upsert tid e tbl = Inr (tbl(tid \<mapsto> r))
     \<and> (\<forall>col\<in>set topic_columns.
           col r = (case tbl tid of None \<Rightarrow> col e | Some old \<Rightarrow> coalesce (col e) (col old)))"
proof (cases "tbl tid")
  case None
  with assms show ?thesis
    by (intro exI [of _ e]) (simp add: topics_upsert_def)
next
  case (Some old)
  let ?r = "\<lparr>tr_display_name = coalesce (tr_display_name e) (tr_display_name old),
             tr_subfield_id = coalesce (tr_subfield_id e) (tr_subfield_id old),
             tr_subfield = coalesce (tr_subfield e) (tr_subfield old),
             tr_field_id = coalesce (tr_field_id e) (tr_field_id old),
             tr_field = coalesce (tr_field e) (tr_field old),
             tr_domain_id = coalesce (tr_domain_id e) (tr_domain_id old),
             tr_domain = coalesce (tr_domain e) (tr_domain old)\<rparr>"
  from Some assms show ?thesis
    by (intro exI [of _ ?r]) (simp add: topics_upsert_def topic_columns_def)
qed

lemma upsert_topic_result:
  assumes "t_id t = Some tid" and "topic_values srv tid t st = (Inr e, st1)"
  shows "upsert_topic srv t st =
     (case topics_upsert tid e (topics (ndb st)) of
        Inl err \<Rightarrow> (Inl err, st1)
      | Inr tbl \<Rightarrow> (Inr (Some tid), st1\<lparr>ndb := (ndb st)\<lparr>topics := tbl\<rparr>\<rparr>))"
proof -
  from topic_values_ndb [of srv tid t st] assms(2) have "ndb st1 = ndb st" by simp
  with assms show ?thesis by (simp add: upsert_topic_def split: sum.splits)
qed

lemma upsert_topic_merge:
  assumes "col \<in> set topic_columns" and "t_id t = Some tid"
    and "topic_values srv tid t st = (Inr e, st1)" and "tr_display_name e \<noteq> None"
  shows "fst (upsert_topic srv t st) = Inr (Some tid)
     \<and> (\<exists>r. topics (ndb (snd (upsert_topic srv t st))) tid = Some r
           \<and> col r = (case topics (ndb st) tid of
                        None \<Rightarrow> col e | Some old \<Rightarrow> coalesce (col e) (col old)))"
proof -
  from topics_upsert_ok [OF assms(4), of tid "topics (ndb st)"] obtain r
    where r: "topics_upsert tid e (topics (ndb st)) = Inr ((topics (ndb st))(tid \<mapsto> r))"
      "\<forall>col\<in>set topic_columns.
         col r = (case topics (ndb st) tid of
                    None \<Rightarrow> col e | Some old \<Rightarrow> coalesce (col e) (col old))" by blast
  from r(2) assms(1) have "col r = (case topics (ndb st) tid of
                    None \<Rightarrow> col e | Some old \<Rightarrow> coalesce (col e) (col old))" by blast
  then show ?thesis
    unfolding upsert_topic_result [OF assms(2,3)] r(1) by simp
qed

lemma upsert_topic_rejected:
  assumes "t_id t = Some tid"
    and "topic_values srv tid t st = (Inr e, st1)" and "tr_display_name e = None"
  shows "upsert_topic srv t st = (Inl IntegrityError, st1)" and "ndb st1 = ndb st"
proof -
  from topic_values_ndb [of srv tid t st] assms(2) show "ndb st1 = ndb st" by simp
  show "upsert_topic srv t st = (Inl IntegrityError, st1)"
    unfolding upsert_topic_result [OF assms(1,2)] topics_upsert_null_name [OF assms(3)] by simp
qed

lemma upsert_topic_never_nulls:
  assumes "col \<in> set topic_columns" and "topics (ndb st) x = Some old" and "col old \<noteq> None"
  shows "\<exists>r. topics (ndb (snd (upsert_topic srv t st))) x = Some r \<and> col r \<noteq> None"
proof (cases "t_id t")
  case None
  with assms show ?thesis by (simp add: upsert_topic_no_id)
next
  case (Some tid)
  obtain res st1 where tv: "topic_values srv tid t st = (res, st1)"
    by (cases "topic_values srv tid t st")
  from topic_values_ndb [of srv tid t st] tv have n: "ndb st1 = ndb st" by simp
  show ?thesis
  proof (cases res)
    case (Inl err)
    with tv Some n assms show ?thesis by (simp add: upsert_topic_def)
  next
    case (Inr e)
    show ?thesis
    proof (cases "tr_display_name e = None")
      case True
      from upsert_topic_rejected [OF Some tv [unfolded Inr] True] assms show ?thesis by simp
    next
      case False
      from upsert_topic_merge [OF assms(1) Some tv [unfolded Inr] False]
      obtain r where r: "topics (ndb (snd (upsert_topic srv t st))) tid = Some r"
        "col r = (case topics (ndb st) tid of
                    None \<Rightarrow> col e | Some old \<Rightarrow> coalesce (col e) (col old))" by blast
      show ?thesis
      proof (cases "x = tid")
        case True
        with r assms(2,3) show ?thesis
          by (auto simp: coalesce_def split: option.splits)
      next
        case diff: False
        from topics_upsert_ok [OF False, of tid "topics (ndb st)"] obtain r'
          where "topics_upsert tid e (topics (ndb st)) = Inr ((topics (ndb st))(tid \<mapsto> r'))"
          by blast
        with diff assms(2,3) show ?thesis
          unfolding upsert_topic_result [OF Some tv [unfolded Inr]] by simp
      qed
    qed
  qed
qed

lemma get_topic_details_error:
  assumes "get_topic_details srv tid st = (Inl e, st')"
  shows "\<exists>x c. e = HTTPError x c"
proof (cases "topic_cache st tid")
  case (Some d)
  with assms show ?thesis by (simp add: get_topic_details_hit)
next
  case None
  let ?f = "get_with_retry_nust (topics_api srv (last_segment tid)) topic_params st"
  from assms have "?f = (Inl e, st')"
    unfolding get_topic_details_miss [OF None] by (auto split: prod.splits sum.splits)
  then show ?thesis by (rule fetch_nust_error)
qed

lemma topic_values_observed:
  "fst (topic_values srv tid t st) = Inr (observed srv tid t st)"
proof (cases "t_field t \<noteq> None \<and> t_domain t \<noteq> None")
  case True
  then show ?thesis by (simp add: topic_values_complete observed_def payload_row_def)
next
  case False
  then have inc: "t_field t = None \<or> t_domain t = None" by simp
  obtain r st1 where g: "get_topic_details srv tid st = (r, st1)"
    by (cases "get_topic_details srv tid st")
  show ?thesis
  proof (cases r)
    case (Inr full)
    with g inc show ?thesis
      unfolding topic_values_incomplete [OF inc]
      by (auto simp: observed_def enriched_row_def py_or_def)
  next
    case (Inl e)
    with get_topic_details_error [OF g [unfolded Inl]] obtain x c where "e = HTTPError x c"
      by blast
    with g Inl inc show ?thesis
      unfolding topic_values_incomplete [OF inc]
      by (auto simp: observed_def payload_row_def)
  qed
qed

lemma topic_values_pair:
  "topic_values srv tid t st = (Inr (observed srv tid t st), snd (topic_values srv tid t st))"
  using topic_values_observed [of srv tid t st] by (cases "topic_values srv tid t st") simp

lemma observed_cached:
  assumes "t_field t = None \<or> t_domain t = None" and "topic_cache st tid = Some d"
  shows "observed srv tid t st = enriched_row t d"
  using assms by (auto simp: observed_def get_topic_details_hit)

lemma observed_fetched:
  assumes "t_field t = None \<or> t_domain t = None" and "topic_cache st tid = None"
    and "status_code (topics_api srv (last_segment tid) (calls st) topic_params) = 200"
  shows "observed srv tid t st =
     enriched_row t (normalized (json (topics_api srv (last_segment tid) (calls st) topic_params)))"
proof -
  from fetch_ok_nust [of "topics_api srv (last_segment tid)" st topic_params] assms(3)
  have "fst (get_topic_details srv tid st) =
      Inr (normalized (json (topics_api srv (last_segment tid) (calls st) topic_params)))"
    unfolding get_topic_details_miss [OF assms(2)] by simp
  with assms(1) show ?thesis by (auto simp: observed_def)
qed

lemma observed_payload:
  assumes "t_field t \<noteq> None" and "t_domain t \<noteq> None"
  shows "observed srv tid t st = payload_row t"
  using assms by (simp add: observed_def)

text \<open>
  C7 (as the code has it).  Topic enrichment is monotonic in null-ness whenever the upsert
  statement runs.  What an \<^verbatim>\<open>upsert_topic\<close> binds to its statement is \<open>observed\<close>: the
  payload's values, with the gaps filled from the resolved details when the payload lacks
  field or domain and the resolver answers, from the cache or by a request that is
  answered 200.  When the observed display name is not null the statement runs, and for
  each of the seven columns a non-null observed value, carried by the payload or
  resolved, is the stored value afterwards (so a topic first stored with null field or
  domain has them after a later upsert that observes them), while a null observed value
  leaves a stored non-null value intact.  When the observed display name is null the
  statement raises \<open>IntegrityError\<close> and the tables are as they were.  No upsert of any
  payload turns a stored non-null value of any topic into null.
\<close>

theorem topic_enrichment_monotonic:
  assumes "col \<in> set topic_columns" and "t_id t = Some tid"
  shows "fst (topic_values srv tid t st) = Inr (observed srv tid t st)
    \<and> (t_field t \<noteq> None \<and> t_domain t \<noteq> None \<longrightarrow> observed srv tid t st = payload_row t)
    \<and> ((t_field t = None \<or> t_domain t = None) \<longrightarrow> topic_cache st tid = Some d \<longrightarrow>
          observed srv tid t st = enriched_row t d)
    \<and> ((t_field t = None \<or> t_domain t = None) \<longrightarrow> topic_cache st tid = None \<longrightarrow>
          status_code (topics_api srv (last_segment tid) (calls st) topic_params) = 200 \<longrightarrow>
          observed srv tid t st =
            enriched_row t
              (normalized (json (topics_api srv (last_segment tid) (calls st) topic_params))))
    \<and> (tr_display_name (observed srv tid t st) \<noteq> None \<longrightarrow>
          fst (upsert_topic srv t st) = Inr (Some tid)
          \<and> (\<exists>r. topics (ndb (snd (upsert_topic srv t st))) tid = Some r
                \<and> (\<forall>v. col (observed srv tid t st) = Some v \<longrightarrow> col r = Some v)
                \<and> (\<forall>old v. topics (ndb st) tid = Some old \<longrightarrow> col old = Some v \<longrightarrow>
                      col (observed srv tid t st) = None \<longrightarrow> col r = Some v)))
    \<and> (tr_display_name (observed srv tid t st) = None \<longrightarrow>
          fst (upsert_topic srv t st) = Inl IntegrityError
          \<and> ndb (snd (upsert_topic srv t st)) = ndb st)
    \<and> (\<forall>x row. topics (ndb st) x = Some row \<longrightarrow> col row \<noteq> None \<longrightarrow>
          (\<exists>r. topics (ndb (snd (upsert_topic srv t' st))) x = Some r \<and> col r \<noteq> None))"
proof -
  let ?e = "observed srv tid t st"
  note tv = topic_values_pair [of srv tid t st]
  have run: "fst (upsert_topic srv t st) = Inr (Some tid)
          \<and> (\<exists>r. topics (ndb (snd (upsert_topic srv t st))) tid = Some r
                \<and> (\<forall>v. col ?e = Some v \<longrightarrow> col r = Some v)
                \<and> (\<forall>old v. topics (ndb st) tid = Some old \<longrightarrow> col old = Some v \<longrightarrow>
                      col ?e = None \<longrightarrow> col r = Some v))"
    if n: "tr_display_name ?e \<noteq> None"
  proof -
    from upsert_topic_merge [OF assms tv n] obtain r
      where r: "fst (upsert_topic srv t st) = Inr (Some tid)"
        "topics (ndb (snd (upsert_topic srv t st))) tid = Some r"
        "col r = (case topics (ndb st) tid of
                    None \<Rightarrow> col ?e | Some old \<Rightarrow> coalesce (col ?e) (col old))" by blast
    from r(3) have "\<forall>v. col ?e = Some v \<longrightarrow> col r = Some v"
      by (auto simp: coalesce_def split: option.splits)
    moreover from r(3)
    have "\<forall>old v. topics (ndb st) tid = Some old \<longrightarrow> col old = Some v \<longrightarrow>
                      col ?e = None \<longrightarrow> col r = Some v"
      by (auto simp: coalesce_def)
    ultimately show ?thesis using r(1,2) by blast
  qed
  have rej: "fst (upsert_topic srv t st) = Inl IntegrityError
          \<and> ndb (snd (upsert_topic srv t st)) = ndb st"
    if n: "tr_display_name ?e = None"
    using upsert_topic_rejected [OF assms(2) tv n] by simp
  have never: "\<forall>x row. topics (ndb st) x = Some row \<longrightarrow> col row \<noteq> None \<longrightarrow>
          (\<exists>r. topics (ndb (snd (upsert_topic srv t' st))) x = Some r \<and> col r \<noteq> None)"
    using upsert_topic_never_nulls [OF assms(1)] by blast
  from topic_values_observed [of srv tid t st] observed_payload [of t srv tid st]
    observed_cached [of t st tid d srv] observed_fetched [of t st tid srv] run rej never
  show ?thesis by blast
qed

text \<open>
  C1 (as the code has it).  On a topic id already stored, the upsert binds the observed
  values (\<open>observed\<close>) to its statement.  When the observed display name is null the
  statement raises \<open>IntegrityError\<close> and the tables are as they were.  Otherwise each of
  the seven columns is merged by \<^verbatim>\<open>COALESCE(excluded.c, topics.c)\<close>: a non-null observed
  value replaces the stored one, whether that was null or not, and only a null observed
  value keeps the stored one.
\<close>

theorem topic_upsert_new_value_wins:
  assumes "col \<in> set topic_columns" and "t_id t = Some tid"
    and "topics (ndb st) tid = Some old"
  shows "fst (topic_values srv tid t st) = Inr (observed srv tid t st)
    \<and> (tr_display_name (observed srv tid t st) = None \<longrightarrow>
          fst (upsert_topic srv t st) = Inl IntegrityError
          \<and> ndb (snd (upsert_topic srv t st)) = ndb st)
    \<and> (tr_display_name (observed srv tid t st) \<noteq> None \<longrightarrow>
          fst (upsert_topic srv t st) = Inr (Some tid)
          \<and> (\<exists>r. topics (ndb (snd (upsert_topic srv t st))) tid = Some r
                \<and> col r = (case col (observed srv tid t st) of
                             Some v \<Rightarrow> Some v | None \<Rightarrow> col old)))"
proof -
  let ?e = "observed srv tid t st"
  note tv = topic_values_pair [of srv tid t st]
  have rej: "fst (upsert_topic srv t st) = Inl IntegrityError
          \<and> ndb (snd (upsert_topic srv t st)) = ndb st"
    if n: "tr_display_name ?e = None"
    using upsert_topic_rejected [OF assms(2) tv n] by simp
  have run: "fst (upsert_topic srv t st) = Inr (Some tid)
          \<and> (\<exists>r. topics (ndb (snd (upsert_topic srv t st))) tid = Some r
                \<and> col r = (case col ?e of Some v \<Rightarrow> Some v | None \<Rightarrow> col old))"
    if n: "tr_display_name ?e \<noteq> None"
    using upsert_topic_merge [OF assms(1,2) tv n] assms(3) by (simp add: coalesce_def)
  from topic_values_observed [of srv tid t st] rej run show ?thesis by blast
qed


lemma no_topic_details:
  assumes "topics_api srv seg n topic_params = no_topic seg n topic_params"
    and "seg = last_segment tid" and "n = calls st" and "topic_cache st tid = None"
  shows "get_topic_details srv tid st = (Inl (HTTPError False 404), st\<lparr>calls := Suc (calls st)\<rparr>)"
  using assms
  by (simp add: get_topic_details_def get_with_retry_nust_def get_with_retry_loop.simps
      no_topic_def)

lemma payload_new_values:
  "topic_values srv topic_T1 payload_new st =
     (Inr \<lparr>tr_display_name = Some ''New name'', tr_subfield_id = None, tr_subfield = None,
           tr_field_id = Some ''F2'', tr_field = Some ''Field two'',
           tr_domain_id = Some ''D1'', tr_domain = None\<rparr>, st)"
  by (simp add: topic_values_def payload_new_def topic_binding_def)

lemma payload_new_observed:
  "observed srv topic_T1 payload_new st =
     \<lparr>tr_display_name = Some ''New name'', tr_subfield_id = None, tr_subfield = None,
      tr_field_id = Some ''F2'', tr_field = Some ''Field two'',
      tr_domain_id = Some ''D1'', tr_domain = None\<rparr>"
  by (simp add: observed_def payload_row_def payload_new_def topic_binding_def)

lemma payload_nameless_observed:
  "observed srv topic_T1 payload_nameless st =
     \<lparr>tr_display_name = None, tr_subfield_id = None, tr_subfield = None,
      tr_field_id = Some ''F2'', tr_field = Some ''Field two'',
      tr_domain_id = Some ''D2'', tr_domain = Some ''Domain two''\<rparr>"
  by (simp add: observed_def payload_row_def payload_nameless_def topic_binding_def)

theorem topic_upsert_new_value_wins_witness:
  "(\<exists>r. topics (ndb (snd (upsert_topic stuck_srv payload_new (with_topic stored_topic_row))))
          topic_T1 = Some r
       \<and> tr_field r = Some ''Field two'' \<and> tr_domain r = Some ''Domain one'')
   \<and> fst (upsert_topic stuck_srv payload_nameless (with_topic stored_topic_row))
       = Inl IntegrityError
   \<and> ndb (snd (upsert_topic stuck_srv payload_nameless (with_topic stored_topic_row)))
       = ndb (with_topic stored_topic_row)"
proof -
  let ?st = "with_topic stored_topic_row"
  have cols: "tr_field \<in> set topic_columns" "tr_domain \<in> set topic_columns"
    by (simp_all add: topic_columns_def)
  have id: "t_id payload_new = Some topic_T1" "t_id payload_nameless = Some topic_T1"
    by (simp_all add: payload_new_def payload_nameless_def)
  have old: "topics (ndb ?st) topic_T1 = Some stored_topic_row"
    by (simp add: with_topic_def)
  from topic_upsert_new_value_wins [OF cols(1) id(1) old, of stuck_srv]
  obtain r where r: "topics (ndb (snd (upsert_topic stuck_srv payload_new ?st))) topic_T1 = Some r"
    "tr_field r = Some ''Field two''" by (auto simp: payload_new_observed)
  from topic_upsert_new_value_wins [OF cols(2) id(1) old, of stuck_srv] r(1)
  have "tr_domain r = Some ''Domain one''"
    by (auto simp: payload_new_observed stored_topic_row_def)
  with r have a: "\<exists>r. topics (ndb (snd (upsert_topic stuck_srv payload_new ?st))) topic_T1 = Some r
       \<and> tr_field r = Some ''Field two'' \<and> tr_domain r = Some ''Domain one''" by blast
  from topic_upsert_new_value_wins [OF cols(1) id(2) old, of stuck_srv]
  have b: "fst (upsert_topic stuck_srv payload_nameless ?st) = Inl IntegrityError
     \<and> ndb (snd (upsert_topic stuck_srv payload_nameless ?st)) = ndb ?st"
    by (simp add: payload_nameless_observed)
  from a b show ?thesis by simp
qed

text \<open>
  The claim as stated, that a non-null stored value is kept when the new observation
  carries a different non-null value, fails: the stored field id \<open>F1\<close> is replaced by the
  observed \<open>F2\<close>.
\<close>

theorem topic_upsert_keeps_stored_counterexample:
  "map_option tr_field_id (topics (ndb (with_topic stored_topic_row)) topic_T1) = Some (Some ''F1'')
   \<and> map_option tr_field_id
        (topics (ndb (snd (upsert_topic stuck_srv payload_new (with_topic stored_topic_row))))
           topic_T1) = Some (Some ''F2'')"
proof -
  have id: "t_id payload_new = Some topic_T1" by (simp add: payload_new_def)
  show ?thesis
    unfolding upsert_topic_result [OF id payload_new_values]
    by (simp add: topics_upsert_def with_topic_def stored_topic_row_def coalesce_def)
qed

text \<open>
  The claim as stated, that a topic stored with a null field has the non-null field of a
  later upsert afterwards, fails when that upsert observes no display name: the payload
  carries the field \<open>F2\<close> and a domain, so the resolver is not consulted, the statement
  raises \<open>IntegrityError\<close>, and the stored field is still null.
\<close>

theorem topic_enrichment_null_name_counterexample:
  "map_option tr_field_id (topics (ndb (with_topic bare_topic_row)) topic_T1) = Some None
   \<and> map_option l_id (t_field payload_nameless) = Some (Some ''F2'')
   \<and> upsert_topic stuck_srv payload_nameless (with_topic bare_topic_row) =
       (Inl IntegrityError, with_topic bare_topic_row)
   \<and> map_option tr_field_id
       (topics (ndb (snd (upsert_topic stuck_srv payload_nameless (with_topic bare_topic_row))))
          topic_T1) = Some None"
proof -
  have id: "t_id payload_nameless = Some topic_T1" by (simp add: payload_nameless_def)
  have tv: "topic_values stuck_srv topic_T1 payload_nameless (with_topic bare_topic_row) =
     (Inr (topic_binding None None (Some (Level (Some ''F2'') (Some ''Field two'') None))
             (Some (Level (Some ''D2'') (Some ''Domain two'') None))),
      with_topic bare_topic_row)"
    by (simp add: topic_values_def payload_nameless_def)
  have u: "upsert_topic stuck_srv payload_nameless (with_topic bare_topic_row) =
       (Inl IntegrityError, with_topic bare_topic_row)"
    unfolding upsert_topic_result [OF id tv]
    by (simp add: topics_upsert_def topic_binding_def)
  show ?thesis
    unfolding u
    by (simp add: with_topic_def bare_topic_row_def payload_nameless_def)
qed

lemma first_sight:
  "calls (snd (upsert_topic late_topic_srv payload_partial nust_state0)) = 1"
  "topic_cache (snd (upsert_topic late_topic_srv payload_partial nust_state0)) topic_T1 = None"
  "topics (ndb (snd (upsert_topic late_topic_srv payload_partial nust_state0))) topic_T1 =
     Some \<lparr>tr_display_name = Some ''New name'', tr_subfield_id = None, tr_subfield = None,
           tr_field_id = None, tr_field = None, tr_domain_id = None, tr_domain = None\<rparr>"
proof -
  have miss: "topic_cache nust_state0 topic_T1 = None" by (simp add: nust_state0_def)
  have z: "calls nust_state0 = 0" by (simp add: nust_state0_def)
  have g: "get_topic_details late_topic_srv topic_T1 nust_state0 =
     (Inl (HTTPError False 404), nust_state0\<lparr>calls := 1\<rparr>)"
    using no_topic_details [OF _ refl refl miss, of late_topic_srv]
    by (simp add: late_topic_srv_def z)
  have id: "t_id payload_partial = Some topic_T1" by (simp add: payload_partial_def)
  have tv: "topic_values late_topic_srv topic_T1 payload_partial nust_state0 =
     (Inr \<lparr>tr_display_name = Some ''New name'', tr_subfield_id = None, tr_subfield = None,
           tr_field_id = None, tr_field = None, tr_domain_id = None, tr_domain = None\<rparr>,
      print (Warning_topic_enrich_failed topic_T1 (HTTPError False 404))
        (nust_state0\<lparr>calls := 1\<rparr>))"
    by (simp add: topic_values_def g payload_partial_def topic_binding_def)
  have u: "upsert_topic late_topic_srv payload_partial nust_state0 =
     (Inr (Some topic_T1),
      (print (Warning_topic_enrich_failed topic_T1 (HTTPError False 404))
        (nust_state0\<lparr>calls := 1\<rparr>))
      \<lparr>ndb := (ndb nust_state0)\<lparr>topics := (topics (ndb nust_state0))(topic_T1 \<mapsto>
         \<lparr>tr_display_name = Some ''New name'', tr_subfield_id = None, tr_subfield = None,
          tr_field_id = None, tr_field = None, tr_domain_id = None, tr_domain = None\<rparr>)\<rparr>\<rparr>)"
    unfolding upsert_topic_result [OF id tv]
    by (simp add: topics_upsert_def nust_state0_def)
  show "calls (snd (upsert_topic late_topic_srv payload_partial nust_state0)) = 1"
    unfolding u by (simp add: print_def)
  show "topic_cache (snd (upsert_topic late_topic_srv payload_partial nust_state0)) topic_T1 = None"
    unfolding u by (simp add: print_def nust_state0_def)
  show "topics (ndb (snd (upsert_topic late_topic_srv payload_partial nust_state0))) topic_T1 =
     Some \<lparr>tr_display_name = Some ''New name'', tr_subfield_id = None, tr_subfield = None,
           tr_field_id = None, tr_field = None, tr_domain_id = None, tr_domain = None\<rparr>"
    unfolding u by (simp add: print_def)
qed

lemma late_topic_enriched:
  "enriched_row payload_partial
     (normalized (json (topics_api late_topic_srv (last_segment topic_T1) 1 topic_params))) =
   \<lparr>tr_display_name = Some ''New name'',
    tr_subfield_id = Some ''S9'', tr_subfield = Some ''Subfield nine'',
    tr_field_id = Some ''F9'', tr_field = Some ''Field nine'',
    tr_domain_id = Some ''D9'', tr_domain = Some ''Domain nine''\<rparr>"
  by (simp add: enriched_row_def normalized_def late_topic_srv_def payload_partial_def
      topic_binding_def truthy_def py_or_def)

theorem topic_enrichment_monotonic_witness:
  "(\<exists>r. topics (ndb (snd (upsert_topic late_topic_srv payload_partial nust_state0))) topic_T1
           = Some r \<and> tr_field_id r = None \<and> tr_domain_id r = None)
   \<and> (\<exists>r. topics (ndb (snd (upsert_topic late_topic_srv payload_partial
              (snd (upsert_topic late_topic_srv payload_partial nust_state0))))) topic_T1
           = Some r \<and> tr_field_id r = Some ''F9'' \<and> tr_domain_id r = Some ''D9'')
   \<and> (\<exists>r. topics (ndb (snd (upsert_topic stuck_srv payload_partial
                               (with_topic stored_topic_row)))) topic_T1 = Some r
           \<and> tr_field_id r = Some ''F1'')
   \<and> (\<exists>r. topics (ndb (snd (upsert_topic stuck_srv payload_new (with_topic bare_topic_row))))
           topic_T1 = Some r \<and> tr_field_id r = Some ''F2'')"
proof -
  let ?st1 = "snd (upsert_topic late_topic_srv payload_partial nust_state0)"
  have cols: "tr_field_id \<in> set topic_columns" "tr_domain_id \<in> set topic_columns"
    by (simp_all add: topic_columns_def)
  have id: "t_id payload_partial = Some topic_T1" by (simp add: payload_partial_def)
  have inc: "t_field payload_partial = None \<or> t_domain payload_partial = None"
    by (simp add: payload_partial_def)
  have ok: "status_code (topics_api late_topic_srv (last_segment topic_T1) (calls ?st1)
      topic_params) = 200"
    unfolding first_sight(1) by (simp add: late_topic_srv_def)
  have a: "\<exists>r. topics (ndb ?st1) topic_T1 = Some r \<and> tr_field_id r = None \<and> tr_domain_id r = None"
    by (simp add: first_sight(3))
  note m1 = topic_enrichment_monotonic [OF cols(1) id, of late_topic_srv ?st1]
  note m2 = topic_enrichment_monotonic [OF cols(2) id, of late_topic_srv ?st1]
  from m1 inc first_sight(2) ok
  have "observed late_topic_srv topic_T1 payload_partial ?st1 =
      enriched_row payload_partial
        (normalized (json (topics_api late_topic_srv (last_segment topic_T1) (calls ?st1)
           topic_params)))"
    by blast
  then have e: "observed late_topic_srv topic_T1 payload_partial ?st1 =
      \<lparr>tr_display_name = Some ''New name'',
       tr_subfield_id = Some ''S9'', tr_subfield = Some ''Subfield nine'',
       tr_field_id = Some ''F9'', tr_field = Some ''Field nine'',
       tr_domain_id = Some ''D9'', tr_domain = Some ''Domain nine''\<rparr>"
    unfolding first_sight(1) late_topic_enriched .
  note run1 = m1 [THEN conjunct2, THEN conjunct2, THEN conjunct2, THEN conjunct2,
      THEN conjunct1, unfolded e]
  note run2 = m2 [THEN conjunct2, THEN conjunct2, THEN conjunct2, THEN conjunct2,
      THEN conjunct1, unfolded e]
  from run1 obtain r where r: "topics (ndb (snd (upsert_topic late_topic_srv payload_partial ?st1)))
        topic_T1 = Some r" "tr_field_id r = Some ''F9''"
    by auto
  from run2 r(1) have "tr_domain_id r = Some ''D9''" by auto
  with r have b: "\<exists>r. topics (ndb (snd (upsert_topic late_topic_srv payload_partial ?st1)))
        topic_T1 = Some r \<and> tr_field_id r = Some ''F9'' \<and> tr_domain_id r = Some ''D9''" by blast
  let ?st = "with_topic stored_topic_row"
  have miss: "topic_cache ?st topic_T1 = None" by (simp add: with_topic_def nust_state0_def)
  have old: "topics (ndb ?st) topic_T1 = Some stored_topic_row" by (simp add: with_topic_def)
  have g: "get_topic_details stuck_srv topic_T1 ?st =
      (Inl (HTTPError False 404), ?st\<lparr>calls := Suc (calls ?st)\<rparr>)"
    by (rule no_topic_details [OF _ refl refl miss]) (simp add: stuck_srv_def)
  have e2: "observed stuck_srv topic_T1 payload_partial ?st =
      \<lparr>tr_display_name = Some ''New name'', tr_subfield_id = None, tr_subfield = None,
       tr_field_id = None, tr_field = None, tr_domain_id = None, tr_domain = None\<rparr>"
    by (simp add: observed_def g payload_row_def payload_partial_def topic_binding_def)
  from topic_enrichment_monotonic [OF cols(1) id, of stuck_srv ?st, THEN conjunct2,
      THEN conjunct2, THEN conjunct2, THEN conjunct2, THEN conjunct1, unfolded e2] old
  have c: "\<exists>r. topics (ndb (snd (upsert_topic stuck_srv payload_partial ?st))) topic_T1 = Some r
           \<and> tr_field_id r = Some ''F1''"
    by (auto simp: stored_topic_row_def)
  have idn: "t_id payload_new = Some topic_T1" by (simp add: payload_new_def)
  from topic_enrichment_monotonic [OF cols(1) idn, of stuck_srv "with_topic bare_topic_row",
      THEN conjunct2, THEN conjunct2, THEN conjunct2, THEN conjunct2, THEN conjunct1,
      unfolded payload_new_observed]
  have d: "\<exists>r. topics (ndb (snd (upsert_topic stuck_srv payload_new (with_topic bare_topic_row))))
           topic_T1 = Some r \<and> tr_field_id r = Some ''F2''"
    by auto
  from a b c d show ?thesis by blast
qed

theorem failed_topic_fetch_not_cached_witness:
  "get_topic_details late_topic_srv topic_T1 nust_state0 =
     (Inl (HTTPError False 404), nust_state0\<lparr>calls := 1\<rparr>)
   \<and> topic_cache (nust_state0\<lparr>calls := 1\<rparr>) topic_T1 = None
   \<and> calls nust_state0 < calls (snd (get_topic_details late_topic_srv topic_T1 nust_state0))
   \<and> (\<exists>d. fst (get_topic_details late_topic_srv topic_T1 (nust_state0\<lparr>calls := 1\<rparr>)) = Inr d
          \<and> d_domain d = Some (Level (Some ''D9'') (Some ''Domain nine'') None))"
proof -
  have miss: "topic_cache nust_state0 topic_T1 = None" by (simp add: nust_state0_def)
  have z: "calls nust_state0 = 0" by (simp add: nust_state0_def)
  have first: "get_topic_details late_topic_srv topic_T1 nust_state0 =
     (Inl (HTTPError False 404), nust_state0\<lparr>calls := 1\<rparr>)"
    using no_topic_details [OF _ refl refl miss, of late_topic_srv]
    by (simp add: late_topic_srv_def z)
  have second: "\<exists>d. fst (get_topic_details late_topic_srv topic_T1 (nust_state0\<lparr>calls := 1\<rparr>))
        = Inr d \<and> d_domain d = Some (Level (Some ''D9'') (Some ''Domain nine'') None)"
    using miss
    by (simp add: get_topic_details_def get_with_retry_nust_def get_with_retry_loop.simps
        late_topic_srv_def normalized_def py_or_def)
  from failed_topic_fetch_not_cached
    [of late_topic_srv topic_T1 nust_state0 "HTTPError False 404" "nust_state0\<lparr>calls := 1\<rparr>"]
    first miss second
  show ?thesis by simp
qed

section \<open>Properties of the harvest runs\<close>

lemma for_each_rule:
  assumes "for_each body xs st = (res, st')" and "I st"
    and B: "\<And>x s r s'. I s \<Longrightarrow> body x s = (r, s') \<Longrightarrow> I s' \<and> (\<forall>e. r = Inl e \<longrightarrow> Q e)"
  shows "I st' \<and> (\<forall>e. res = Inl e \<longrightarrow> Q e)"
  using assms(1,2)
proof (induction xs arbitrary: st)
  case Nil
  then show ?case by auto
next
  case (Cons x xs)
  obtain r s1 where b: "body x st = (r, s1)" by (cases "body x st")
  from B [OF Cons.prems(2) b] have i1: "I s1" and q: "\<forall>e. r = Inl e \<longrightarrow> Q e" by simp_all
  show ?case
  proof (cases r)
    case (Inl e)
    with Cons.prems(1) b i1 q show ?thesis by simp
  next
    case (Inr u)
    with Cons.prems(1) b have "for_each body xs s1 = (res, st')" by simp
    from Cons.IH [OF this i1] show ?thesis .
  qed
qed

lemma cursor_loop_rule:
  assumes run: "cursor_loop fetch body params st = Some (res, st')"
    and I0: "I st"
    and F: "\<And>ps s r s'. I s \<Longrightarrow> fetch ps s = (r, s') \<Longrightarrow> I s' \<and> (\<forall>e. r = Inl e \<longrightarrow> Q e)"
    and B: "\<And>x s r s'. I s \<Longrightarrow> body x s = (r, s') \<Longrightarrow> I s' \<and> (\<forall>e. r = Inl e \<longrightarrow> Q e)"
    and S: "\<And>s. I s \<Longrightarrow> I (sleep PAGE_SLEEP s)"
  shows "I st' \<and> (\<forall>e. res = Inl e \<longrightarrow> Q e)"
proof -
  have "fetch = fetch \<and> body = body \<longrightarrow> I st \<longrightarrow>
      I (snd (res, st')) \<and> (\<forall>e. fst (res, st') = Inl e \<longrightarrow> Q e)"
  proof (rule cursor_loop.raw_induct
      [where P = "\<lambda>f b p s y. f = fetch \<and> b = body \<longrightarrow> I s \<longrightarrow>
                     I (snd y) \<and> (\<forall>e. fst y = Inl e \<longrightarrow> Q e)", OF _ run])
    fix cl f b p s y
    assume IH: "\<And>f b p s y. cl f b p s = Some y \<Longrightarrow>
        f = fetch \<and> b = body \<longrightarrow> I s \<longrightarrow> I (snd y) \<and> (\<forall>e. fst y = Inl e \<longrightarrow> Q e)"
      and step: "(case f p s of
          (Inl e, st1) \<Rightarrow> Some (Inl e, st1)
        | (Inr data, st1) \<Rightarrow>
            (case for_each b (results data) st1 of
               (Inl e, st2) \<Rightarrow> Some (Inl e, st2)
             | (Inr u, st2) \<Rightarrow>
                 (case next_cursor data of
                    None \<Rightarrow> Some (Inr (), st2)
                  | Some nxt \<Rightarrow>
                      if nxt = [] then Some (Inr (), st2)
                      else cl f b (AList.update ''cursor'' nxt p) (sleep PAGE_SLEEP st2)))) = Some y"
    show "f = fetch \<and> b = body \<longrightarrow> I s \<longrightarrow> I (snd y) \<and> (\<forall>e. fst y = Inl e \<longrightarrow> Q e)"
    proof (intro impI)
      assume eq: "f = fetch \<and> b = body" and i: "I s"
      obtain r s1 where f: "fetch p s = (r, s1)" by (cases "fetch p s")
      from F [OF i f] have i1: "I s1" and q1: "\<forall>e. r = Inl e \<longrightarrow> Q e" by simp_all
      show "I (snd y) \<and> (\<forall>e. fst y = Inl e \<longrightarrow> Q e)"
      proof (cases r)
        case (Inl e)
        with step eq f have "y = (Inl e, s1)" by simp
        with i1 q1 Inl show ?thesis by simp
      next
        case (Inr data)
        obtain r2 s2 where fe: "for_each body (results data) s1 = (r2, s2)"
          by (cases "for_each body (results data) s1")
        have "I s2 \<and> (\<forall>e. r2 = Inl e \<longrightarrow> Q e)"
          by (rule for_each_rule [where I = I and Q = Q and body = body, OF fe i1 B])
        then have i2: "I s2" and q2: "\<forall>e. r2 = Inl e \<longrightarrow> Q e"
          by simp_all
        show ?thesis
        proof (cases r2)
          case (Inl e)
          with step eq f Inr fe have "y = (Inl e, s2)" by simp
          with i2 q2 Inl show ?thesis by simp
        next
          case u: (Inr u)
          show ?thesis
          proof (cases "truthy (next_cursor data)")
            case False
            with step eq f Inr fe u have "y = (Inr (), s2)"
              by (auto simp: truthy_def split: option.splits)
            with i2 show ?thesis by simp
          next
            case True
            then obtain nxt where n: "next_cursor data = Some nxt" "nxt \<noteq> []"
              by (auto simp: truthy_def split: option.splits)
            with step eq f Inr fe u
            have "cl fetch body (AList.update ''cursor'' nxt p) (sleep PAGE_SLEEP s2) = Some y"
              by simp
            from IH [OF this] S [OF i2] show ?thesis by simp
          qed
        qed
      qed
    qed
  qed
  with I0 show ?thesis by simp
qed

lemma fetch_conf_frame:
  "\<exists>c s. snd (get_with_retry_conf ep ps st) = st\<lparr>calls := c, sleeps := s\<rparr> \<and> calls st < c"
  unfolding get_with_retry_conf_def by (rule retry_loop_frame)

lemma fetch_conf_error:
  "get_with_retry_conf ep ps st = (Inl e, st') \<Longrightarrow> \<exists>x c. e = HTTPError x c"
  unfolding get_with_retry_conf_def by (rule retry_loop_error)

lemma fetch_conf_inv:
  assumes "conf_inv s" and "get_with_retry_conf ep ps s = (r, s')"
  shows "conf_inv s' \<and> (\<forall>e. r = Inl e \<longrightarrow> (\<exists>x c. e = HTTPError x c))"
proof -
  from fetch_conf_frame [of ep ps s] assms(2)
  obtain c sl where "s' = s\<lparr>calls := c, sleeps := sl\<rparr>" by auto
  with assms(1) have "conf_inv s'" by (simp add: conf_inv_def)
  with fetch_conf_error assms(2) show ?thesis by blast
qed

lemma upsert_fact_loop_work_ids:
  "f_work_id ` set (upsert_fact_loop w aus rows) \<subseteq> insert (w_id w) (f_work_id ` set rows)"
proof -
  have "f_work_id ` set (upsert_fact_loop w aus rows) =
      snd ` set (map fact_key (upsert_fact_loop w aus rows))"
    by (force simp: fact_key_def image_iff)
  also have "\<dots> \<subseteq> insert (w_id w) (snd ` set (map fact_key rows))"
    unfolding loop_keys by auto
  also have "snd ` set (map fact_key rows) = f_work_id ` set rows"
    by (force simp: fact_key_def image_iff)
  finally show ?thesis .
qed

lemma work_step_facts_ok:
  assumes "facts_ok d"
  shows "facts_ok (upsert_fact w (upsert_work_conf w d))"
  unfolding facts_ok_def
proof
  fix r
  assume "r \<in> set (fact_authorships_works (upsert_fact w (upsert_work_conf w d)))"
  then have "r \<in> set (upsert_fact_loop w (w_authorships w) (fact_authorships_works d))"
    by (simp add: upsert_fact_def upsert_work_conf_def)
  with upsert_fact_loop_work_ids [of w "w_authorships w" "fact_authorships_works d"]
  have "f_work_id r = w_id w \<or> f_work_id r \<in> f_work_id ` set (fact_authorships_works d)"
    by auto
  with assms show "f_work_id r \<in> dom (works (upsert_fact w (upsert_work_conf w d)))"
    by (auto simp: facts_ok_def upsert_fact_def upsert_work_conf_def)
qed

lemma conf_work_body_inv:
  assumes "conf_inv s" and "conf_work_body w s = (r, s')"
  shows "conf_inv s' \<and> (\<forall>e. r = Inl e \<longrightarrow> (\<exists>x c. e = HTTPError x c))"
proof -
  from assms(1) have "facts_ok (upsert_fact w (upsert_work_conf w (db s)))"
    by (simp add: conf_inv_def work_step_facts_ok)
  with assms show ?thesis
    by (auto simp: conf_work_body_def conf_inv_def Let_def split: if_splits)
qed

lemma conf_author_body_inv:
  assumes "conf_inv s" and "conf_author_body a s = (r, s')"
  shows "conf_inv s' \<and> (\<forall>e. r = Inl e \<longrightarrow> (\<exists>x c. e = HTTPError x c))"
  using assms
  by (auto simp: conf_author_body_def conf_inv_def Let_def commit_conf_def facts_ok_def
      split: if_splits)

lemma conf_sleep_inv: "conf_inv s \<Longrightarrow> conf_inv (sleep d s)"
  by (simp add: conf_inv_def sleep_def)

lemma conf_print_inv: "conf_inv s \<Longrightarrow> conf_inv (print m s)"
  by (simp add: conf_inv_def print_def)

lemma conf_commit_inv: "conf_inv s \<Longrightarrow> conf_inv (commit_conf s)"
  by (simp add: conf_inv_def commit_conf_def)

lemma iter_author_works_year_inv:
  assumes "iter_author_works_year srv cfg aid yr conf_work_body st = Some (res, st')"
    and "conf_inv st"
  shows "conf_inv st' \<and> (\<forall>e. res = Inl e \<longrightarrow> (\<exists>x c. e = HTTPError x c))"
  by (rule cursor_loop_rule [where I = conf_inv, OF assms(1) [unfolded iter_author_works_year_def]
        assms(2) fetch_conf_inv conf_work_body_inv conf_sleep_inv])

lemma iter_authors_conf_inv:
  assumes "iter_authors_conf srv cfg conf_author_body st = Some (res, st')"
    and "conf_inv st"
  shows "conf_inv st' \<and> (\<forall>e. res = Inl e \<longrightarrow> (\<exists>x c. e = HTTPError x c))"
  by (rule cursor_loop_rule [where I = conf_inv, OF assms(1) [unfolded iter_authors_conf_def]
        assms(2) fetch_conf_inv conf_author_body_inv conf_sleep_inv])

lemma conf_year_loop_inv:
  assumes "conf_year_loop srv cfg aid yrs st = Some (res, st')" and "conf_inv st"
  shows "conf_inv st' \<and> res = Inr ()"
  using assms
proof (induction yrs arbitrary: st)
  case Nil
  then show ?case by simp
next
  case (Cons yr yrs)
  show ?case
  proof (cases "iter_author_works_year srv cfg aid yr conf_work_body st")
    case None
    with Cons.prems(1) show ?thesis by simp
  next
    case (Some y)
    obtain r s1 where y: "y = (r, s1)" by (cases y)
    from iter_author_works_year_inv [OF Some [unfolded y] Cons.prems(2)]
    have i1: "conf_inv s1" and q: "\<forall>e. r = Inl e \<longrightarrow> (\<exists>x c. e = HTTPError x c)" by simp_all
    show ?thesis
    proof (cases r)
      case (Inr u)
      with Cons.prems(1) Some y
      have "conf_year_loop srv cfg aid yrs (commit_conf s1) = Some (res, st')" by simp
      from Cons.IH [OF this conf_commit_inv [OF i1]] show ?thesis .
    next
      case (Inl e)
      with q obtain x c where e: "e = HTTPError x c" by blast
      with Cons.prems(1) Some y Inl
      have "conf_year_loop srv cfg aid yrs
          (print (Warning_fetch_failed_year aid yr (HTTPError x c)) s1) = Some (res, st')"
        by simp
      from Cons.IH [OF this conf_print_inv [OF i1]] show ?thesis .
    qed
  qed
qed

lemma conf_author_loop_inv:
  assumes "conf_author_loop srv cfg aids st = Some (res, st')" and "conf_inv st"
  shows "conf_inv st' \<and> res = Inr ()"
  using assms
proof (induction aids arbitrary: st)
  case Nil
  then show ?case by simp
next
  case (Cons aid aids)
  show ?case
  proof (cases "conf_year_loop srv cfg aid [YEAR_START cfg..YEAR_END cfg] st")
    case None
    with Cons.prems(1) show ?thesis by simp
  next
    case (Some y)
    obtain r s1 where y: "y = (r, s1)" by (cases y)
    from conf_year_loop_inv [OF Some [unfolded y] Cons.prems(2)]
    have i1: "conf_inv s1" and r: "r = Inr ()" by simp_all
    with Cons.prems(1) Some y have "conf_author_loop srv cfg aids s1 = Some (res, st')" by simp
    from Cons.IH [OF this i1] show ?thesis .
  qed
qed

lemma conf_main_inv:
  assumes "conf_main srv cfg st0 = Some (res, st)" and "facts_ok (committed st0)"
  shows "conf_inv st"
proof -
  let ?st = "st0\<lparr>db := committed st0, author_ids := [], count_authors := 0\<rparr>"
  have i0: "conf_inv ?st" using assms(2) by (simp add: conf_inv_def)
  show ?thesis
  proof (cases "iter_authors_conf srv cfg conf_author_body ?st")
    case None
    with assms(1) show ?thesis by (simp add: conf_main_def)
  next
    case (Some y)
    obtain r s1 where y: "y = (r, s1)" by (cases y)
    from iter_authors_conf_inv [OF Some [unfolded y] i0] have i1: "conf_inv s1" by simp
    show ?thesis
    proof (cases r)
      case (Inl e)
      with assms(1) Some y i1 show ?thesis by (simp add: conf_main_def)
    next
      case (Inr u)
      let ?s3 = "(print (Authors_stored (count_authors s1)) (commit_conf s1))\<lparr>seen_works := {}\<rparr>"
      have i3: "conf_inv ?s3"
        using conf_print_inv [OF conf_commit_inv [OF i1]] by (simp add: conf_inv_def)
      show ?thesis
      proof (cases "conf_author_loop srv cfg (author_ids ?s3) ?s3")
        case None
        with assms(1) Some y Inr show ?thesis by (simp add: conf_main_def Let_def)
      next
        case some4: (Some y4)
        obtain r4 s4 where y4: "y4 = (r4, s4)" by (cases y4)
        from conf_author_loop_inv [OF some4 [unfolded y4] i3]
        have i4: "conf_inv s4" and r4: "r4 = Inr ()" by simp_all
        from assms(1) Some y Inr some4 y4 r4
        have "st = commit_conf (print (Unique_works_stored (card (seen_works s4))) s4)"
          by (simp add: conf_main_def Let_def)
        with conf_commit_inv [OF conf_print_inv [OF i4]] show ?thesis by simp
      qed
    qed
  qed
qed

lemma links_same_refl: "links_same st st"
  by (simp add: links_same_def)

lemma links_same_trans: "links_same a b \<Longrightarrow> links_same b c \<Longrightarrow> links_same a c"
  by (simp add: links_same_def)

lemma links_same_inv: "links_same st st' \<Longrightarrow> nust_inv st \<Longrightarrow> nust_inv st'"
  by (simp add: links_same_def nust_inv_def links_ok_def)

lemma topic_values_links: "links_same st (snd (topic_values srv tid t st))"
proof -
  from topic_values_frame [of srv tid t st] obtain c s pr tc
    where "snd (topic_values srv tid t st) =
       st\<lparr>calls := c, sleeps := s, printed := pr, topic_cache := tc\<rparr>" by blast
  then show ?thesis by (simp add: links_same_def)
qed

lemma upsert_topic_links: "links_same st (snd (upsert_topic srv t st))"
proof (cases "t_id t")
  case None
  then show ?thesis by (simp add: upsert_topic_no_id links_same_refl)
next
  case (Some tid)
  from upsert_topic_state [OF Some, of srv st] topic_values_links [of st srv tid t]
  show ?thesis by (auto simp: links_same_def)
qed

lemma attach_topic_links: "links_same st (snd (attach_topic srv wid prim t st))"
proof -
  obtain r s1 where u: "upsert_topic srv t st = (r, s1)" by (cases "upsert_topic srv t st")
  from upsert_topic_links [of st srv t] u have "links_same st s1" by simp
  with u show ?thesis
    by (cases r) (simp_all add: attach_topic_def links_same_def)
qed

lemma attach_topics_loop_links: "links_same st (snd (attach_topics_loop srv wid ts st))"
proof (induction ts arbitrary: st)
  case Nil
  show ?case by (simp add: links_same_refl)
next
  case (Cons t ts)
  show ?case
  proof (cases "t_id t = None")
    case True
    with Cons show ?thesis by simp
  next
    case False
    obtain r s1 where a: "attach_topic srv wid 0 t st = (r, s1)"
      by (cases "attach_topic srv wid 0 t st")
    from attach_topic_links [of st srv wid 0 t] a have l1: "links_same st s1" by simp
    from False have step: "attach_topics_loop srv wid (t # ts) st =
        (case attach_topic srv wid 0 t st of
           (Inl e, st1) \<Rightarrow> (Inl e, st1)
         | (Inr u, st1) \<Rightarrow> attach_topics_loop srv wid ts st1)" by auto
    show ?thesis
    proof (cases r)
      case (Inl e)
      with a l1 show ?thesis unfolding step by simp
    next
      case (Inr u)
      with a have "attach_topics_loop srv wid (t # ts) st = attach_topics_loop srv wid ts s1"
        unfolding step by simp
      with links_same_trans [OF l1 Cons.IH [of s1]] show ?thesis by simp
    qed
  qed
qed

lemma attach_work_topics_links: "links_same st (snd (attach_work_topics srv wid wk st))"
proof -
  let ?first = "case w_primary_topic wk of
              None \<Rightarrow> (Inr (), st)
            | Some pt \<Rightarrow> if t_id pt \<noteq> None then attach_topic srv wid 1 pt st
                         else (Inr (), st)"
  obtain r s1 where f: "?first = (r, s1)" by (cases ?first)
  have l1: "links_same st s1"
  proof (cases "w_primary_topic wk")
    case None
    with f show ?thesis by (simp add: links_same_refl)
  next
    case (Some pt)
    with f attach_topic_links [of st srv wid 1 pt] show ?thesis
      by (auto simp: links_same_refl split: if_splits)
  qed
  show ?thesis
  proof (cases r)
    case (Inl e)
    with f l1 show ?thesis by (simp add: attach_work_topics_def)
  next
    case (Inr u)
    with f have "attach_work_topics srv wid wk st = attach_topics_loop srv wid (w_topics wk) s1"
      by (simp add: attach_work_topics_def)
    with links_same_trans [OF l1 attach_topics_loop_links [of s1]] show ?thesis by simp
  qed
qed

lemma insert_or_ignore_authorship_work_ids:
  "as_work_id ` set (insert_or_ignore_authorship r rows)
     \<subseteq> insert (as_work_id r) (as_work_id ` set rows)"
  by (auto simp: insert_or_ignore_authorship_def)

lemma attach_authorships_loop_skip:
  assumes "\<not> truthy (case au_author au of None \<Rightarrow> None | Some a \<Rightarrow> ref_id a)"
  shows "attach_authorships_loop cfg wid (au # aus) rows =
     attach_authorships_loop cfg wid aus rows"
  using assms by (simp add: Let_def)

lemma attach_authorships_loop_insert:
  assumes "truthy (case au_author au of None \<Rightarrow> None | Some a \<Rightarrow> ref_id a)"
  shows "\<exists>r. as_work_id r = wid \<and>
     attach_authorships_loop cfg wid (au # aus) rows =
       attach_authorships_loop cfg wid aus (insert_or_ignore_authorship r rows)"
proof -
  let ?aid = "case au_author au of None \<Rightarrow> None | Some a \<Rightarrow> ref_id a"
  let ?row = "\<lparr>as_work_id = wid, as_author_id = or_str ?aid,
        as_author_position = au_author_position au,
        as_is_nust_affiliation =
          (if list_ex (\<lambda>i. inst_id i = Some (NUST_INST_ID cfg)) (au_institutions au)
           then 1 else 0)\<rparr>"
  have "attach_authorships_loop cfg wid (au # aus) rows =
       attach_authorships_loop cfg wid aus (insert_or_ignore_authorship ?row rows)"
    using assms by (simp add: Let_def)
  moreover have "as_work_id ?row = wid" by simp
  ultimately show ?thesis by blast
qed

lemma attach_authorships_loop_work_ids:
  "as_work_id ` set (attach_authorships_loop cfg wid aus rows)
     \<subseteq> insert wid (as_work_id ` set rows)"
proof (induction aus arbitrary: rows)
  case Nil
  show ?case by auto
next
  case (Cons au aus)
  show ?case
  proof (cases "truthy (case au_author au of None \<Rightarrow> None | Some a \<Rightarrow> ref_id a)")
    case False
    show ?thesis
      unfolding attach_authorships_loop_skip [OF False] by (rule Cons.IH)
  next
    case True
    from attach_authorships_loop_insert [OF True, of wid cfg aus rows] obtain r
      where r: "as_work_id r = wid"
        "attach_authorships_loop cfg wid (au # aus) rows =
         attach_authorships_loop cfg wid aus (insert_or_ignore_authorship r rows)" by blast
    have a: "as_work_id ` set (attach_authorships_loop cfg wid aus
         (insert_or_ignore_authorship r rows))
        \<subseteq> insert wid (as_work_id ` set (insert_or_ignore_authorship r rows))"
      by (rule Cons.IH)
    have b: "as_work_id ` set (insert_or_ignore_authorship r rows)
        \<subseteq> insert wid (as_work_id ` set rows)"
      using insert_or_ignore_authorship_work_ids [of r rows] r(1) by simp
    from a b show ?thesis unfolding r(2) by blast
  qed
qed

lemma nust_db_step_links_ok:
  assumes "links_ok d"
  shows "links_ok (attach_authorships cfg (w_id wk) wk (upsert_work_nust wk d))"
  unfolding links_ok_def
proof
  fix r
  assume "r \<in> set (authorships_2025 (attach_authorships cfg (w_id wk) wk (upsert_work_nust wk d)))"
  then have "r \<in> set (attach_authorships_loop cfg (w_id wk) (w_authorships wk)
      (authorships_2025 d))"
    by (simp add: attach_authorships_def upsert_work_nust_def)
  with attach_authorships_loop_work_ids [of cfg "w_id wk" "w_authorships wk" "authorships_2025 d"]
  have "as_work_id r = w_id wk \<or> as_work_id r \<in> as_work_id ` set (authorships_2025 d)"
    by auto
  with assms
  show "as_work_id r \<in> dom (works_2025 (attach_authorships cfg (w_id wk) wk
      (upsert_work_nust wk d)))"
    by (auto simp: links_ok_def attach_authorships_def upsert_work_nust_def)
qed

lemma nust_work_body_inv:
  assumes "nust_inv s" and "nust_work_body srv cfg wk s = (r, s')"
  shows "nust_inv s' \<and> (\<forall>e. r = Inl e \<longrightarrow> True)"
proof -
  let ?s2 = "s\<lparr>ndb := attach_authorships cfg (w_id wk) wk (upsert_work_nust wk (ndb s))\<rparr>"
  have i2: "nust_inv ?s2"
    using assms(1) by (simp add: nust_inv_def nust_db_step_links_ok)
  obtain r3 s3 where a: "attach_work_topics srv (w_id wk) wk ?s2 = (r3, s3)"
    by (cases "attach_work_topics srv (w_id wk) wk ?s2")
  from attach_work_topics_links [of ?s2 srv "w_id wk" wk] a have "links_same ?s2 s3" by simp
  from links_same_inv [OF this i2] have i3: "nust_inv s3" .
  from assms(2) a have "s' = s3 \<or> s' = s3\<lparr>seen_work_ids := insert (w_id wk) (seen_work_ids s3),
                               work_count := work_count s3 + 1\<rparr>"
    by (cases r3) (auto simp: nust_work_body_def Let_def split: if_splits)
  with i3 show ?thesis by (auto simp: nust_inv_def)
qed

lemma nust_author_body_inv:
  assumes "nust_inv s" and "nust_author_body a s = (r, s')"
  shows "nust_inv s' \<and> (\<forall>e. r = Inl e \<longrightarrow> True)"
  using assms
  by (auto simp: nust_author_body_def nust_inv_def Let_def commit_nust_def links_ok_def
      split: if_splits)

lemma fetch_nust_inv:
  assumes "nust_inv s" and "get_with_retry_nust ep ps s = (r, s')"
  shows "nust_inv s' \<and> (\<forall>e. r = Inl e \<longrightarrow> True)"
proof -
  from fetch_nust_frame [of ep ps s] assms(2)
  obtain c sl where "s' = s\<lparr>calls := c, sleeps := sl\<rparr>" by auto
  with assms(1) show ?thesis by (simp add: nust_inv_def)
qed

lemma nust_sleep_inv: "nust_inv s \<Longrightarrow> nust_inv (sleep d s)"
  by (simp add: nust_inv_def sleep_def)

lemma nust_print_inv: "nust_inv s \<Longrightarrow> nust_inv (print m s)"
  by (simp add: nust_inv_def print_def)

lemma nust_commit_inv: "nust_inv s \<Longrightarrow> nust_inv (commit_nust s)"
  by (simp add: nust_inv_def commit_nust_def)

lemma iter_author_works_2025_inv:
  assumes "iter_author_works_2025 srv cfg aid (nust_work_body srv cfg) st = Some (res, st')"
    and "nust_inv st"
  shows "nust_inv st'"
  using cursor_loop_rule [where I = nust_inv and Q = "\<lambda>e. True",
      OF assms(1) [unfolded iter_author_works_2025_def] assms(2)
         fetch_nust_inv nust_work_body_inv nust_sleep_inv]
  by simp

lemma iter_authors_nust_inv:
  assumes "iter_authors_nust srv cfg nust_author_body st = Some (res, st')"
    and "nust_inv st"
  shows "nust_inv st'"
  using cursor_loop_rule [where I = nust_inv and Q = "\<lambda>e. True",
      OF assms(1) [unfolded iter_authors_nust_def] assms(2)
         fetch_nust_inv nust_author_body_inv nust_sleep_inv]
  by simp

lemma nust_author_loop_inv:
  assumes "nust_author_loop srv cfg aids st = Some (res, st')" and "nust_inv st"
  shows "nust_inv st' \<and> (res = Inr () \<or> res = Inl IntegrityError)"
  using assms
proof (induction aids arbitrary: st)
  case Nil
  then show ?case by simp
next
  case (Cons aid aids)
  show ?case
  proof (cases "iter_author_works_2025 srv cfg aid (nust_work_body srv cfg) st")
    case None
    with Cons.prems(1) show ?thesis by simp
  next
    case (Some y)
    obtain r s1 where y: "y = (r, s1)" by (cases y)
    from iter_author_works_2025_inv [OF Some [unfolded y] Cons.prems(2)]
    have i1: "nust_inv s1" .
    show ?thesis
    proof (cases r)
      case (Inr u)
      with Cons.prems(1) Some y
      have "nust_author_loop srv cfg aids (commit_nust s1) = Some (res, st')" by simp
      from Cons.IH [OF this nust_commit_inv [OF i1]] show ?thesis .
    next
      case (Inl e)
      show ?thesis
      proof (cases e)
        case (HTTPError x c)
        with Cons.prems(1) Some y Inl
        have "nust_author_loop srv cfg aids
            (print (Warning_works_fetch_failed aid (HTTPError x c)) s1) = Some (res, st')"
          by simp
        from Cons.IH [OF this nust_print_inv [OF i1]] show ?thesis .
      next
        case IntegrityError
        with Cons.prems(1) Some y Inl i1 show ?thesis by simp
      qed
    qed
  qed
qed

lemma nust_main_inv:
  assumes "nust_main srv cfg row_order st0 = Some (res, st)" and "links_ok (ncommitted st0)"
  shows "nust_inv st"
proof -
  let ?st = "st0\<lparr>ndb := ncommitted st0, author_count := 0\<rparr>"
  have i0: "nust_inv ?st" using assms(2) by (simp add: nust_inv_def)
  show ?thesis
  proof (cases "iter_authors_nust srv cfg nust_author_body ?st")
    case None
    with assms(1) show ?thesis by (simp add: nust_main_def)
  next
    case (Some y)
    obtain r s1 where y: "y = (r, s1)" by (cases y)
    from iter_authors_nust_inv [OF Some [unfolded y] i0] have i1: "nust_inv s1" .
    show ?thesis
    proof (cases r)
      case (Inl e)
      with assms(1) Some y i1 show ?thesis by (simp add: nust_main_def)
    next
      case (Inr u)
      let ?s3 = "(print (Authors_stored (author_count s1)) (commit_nust s1))
          \<lparr>seen_work_ids := {}, work_count := 0\<rparr>"
      have i3: "nust_inv ?s3"
        using nust_print_inv [OF nust_commit_inv [OF i1]] by (simp add: nust_inv_def)
      show ?thesis
      proof (cases "nust_author_loop srv cfg (row_order (n_authors (ndb ?s3))) ?s3")
        case None
        with assms(1) Some y Inr show ?thesis by (simp add: nust_main_def Let_def)
      next
        case some4: (Some y4)
        obtain r4 s4 where y4: "y4 = (r4, s4)" by (cases y4)
        from nust_author_loop_inv [OF some4 [unfolded y4] i3] have i4: "nust_inv s4" by simp
        from assms(1) Some y Inr some4 y4
        have "st = s4 \<or> st = commit_nust s4"
          by (cases r4) (simp_all add: nust_main_def Let_def)
        with i4 nust_commit_inv [OF i4] show ?thesis by auto
      qed
    qed
  qed
qed

text \<open>
  C2 (as the code has it).  After any harvest run that returns, normally or by a fatal
  error, and whatever fetches were skipped on the way, every row of the authorship fact
  table (\<^verbatim>\<open>conf_jour_outputs.py\<close>) and of the authorship link table
  (\<^verbatim>\<open>nust_authors.py\<close>) names a work id that is in the works table, both in the tables
  the connection sees and in the committed ones, provided this held of the committed
  tables at the start.  Nothing of the kind is claimed of the author id.
\<close>

theorem fact_rows_reference_stored_works:
  "(conf_main srv cfg st0 = Some (res, st) \<longrightarrow> facts_ok (committed st0) \<longrightarrow>
      facts_ok (db st) \<and> facts_ok (committed st))
   \<and> (nust_main srv cfg row_order nst0 = Some (nres, nst) \<longrightarrow> links_ok (ncommitted nst0) \<longrightarrow>
      links_ok (ndb nst) \<and> links_ok (ncommitted nst))"
  using conf_main_inv [of srv cfg st0 res st] nust_main_inv [of srv cfg row_order nst0 nres nst]
  by (simp add: conf_inv_def nust_inv_def)

lemma orcid_stripped:
  "str_replace ''https://orcid.org/'' [] ''https://orcid.org/0000-0002-1825-0097'' =
     ''0000-0002-1825-0097''"
  by (simp add: str_replace.simps)

lemma single_page_conf:
  assumes "ep (calls st) ps = last_page rs"
  shows "cursor_loop (get_with_retry_conf ep) body ps st =
     Some (for_each body rs (st\<lparr>calls := Suc (calls st)\<rparr>))"
proof -
  have f: "get_with_retry_conf ep ps st =
      (Inr \<lparr>results = rs, next_cursor = None\<rparr>, st\<lparr>calls := Suc (calls st)\<rparr>)"
    using fetch_ok_conf [of ep st ps] assms by (simp add: last_page_def)
  show ?thesis
    by (subst cursor_loop.simps)
       (simp add: f split: prod.splits sum.splits)
qed

lemma single_page_nust:
  assumes "ep (calls st) ps = last_page rs"
  shows "cursor_loop (get_with_retry_nust ep) body ps st =
     Some (for_each body rs (st\<lparr>calls := Suc (calls st)\<rparr>))"
proof -
  have f: "get_with_retry_nust ep ps st =
      (Inr \<lparr>results = rs, next_cursor = None\<rparr>, st\<lparr>calls := Suc (calls st)\<rparr>)"
    using fetch_ok_nust [of ep st ps] assms by (simp add: last_page_def)
  show ?thesis
    by (subst cursor_loop.simps)
       (simp add: f split: prod.splits sum.splits)
qed

lemma demo_author_upsert:
  "upsert_author (demo_author aid) tbl = tbl(aid \<mapsto> demo_author_row)"
  by (simp add: upsert_author_def demo_author_def demo_author_row_def or_str_def orcid_stripped)

lemma demo_work_upsert:
  "upsert_work_conf (demo_work wid aids 2025) d = d\<lparr>works := (works d)(wid \<mapsto> demo_work_row)\<rparr>"
  by (simp add: upsert_work_conf_def demo_work_venue demo_work_row_def) (simp add: demo_work_def)

lemma demo_authorships_facts:
  assumes "w_id w = wid" and "w_publication_year w = Some 2025"
    and "classify_venue_type w = ''journal''"
  shows "upsert_fact_loop w
       (map (\<lambda>a. \<lparr>au_author = Some \<lparr>ref_id = Some a\<rparr>, au_author_position = None,
                    au_institutions = []\<rparr>) aids) rows =
     foldl (\<lambda>rows a. if a = [] then rows else insert_or_ignore_fact (demo_fact a wid) rows)
       rows aids"
  using assms
  by (induction aids arbitrary: rows) (simp_all add: truthy_def or_str_def demo_fact_def)

lemma demo_work_facts:
  "upsert_fact (demo_work wid aids 2025) d =
     d\<lparr>fact_authorships_works :=
         foldl (\<lambda>rows a. if a = [] then rows else insert_or_ignore_fact (demo_fact a wid) rows)
           (fact_authorships_works d) aids\<rparr>"
proof -
  have a: "w_id (demo_work wid aids 2025) = wid"
    "w_publication_year (demo_work wid aids 2025) = Some 2025"
    "w_authorships (demo_work wid aids 2025) =
       map (\<lambda>a. \<lparr>au_author = Some \<lparr>ref_id = Some a\<rparr>, au_author_position = None,
                    au_institutions = []\<rparr>) aids"
    by (simp_all add: demo_work_def)
  show ?thesis
    unfolding upsert_fact_def a(3)
    by (simp add: demo_authorships_facts [OF a(1,2) demo_work_venue])
qed

lemma demo_work_id: "w_id (demo_work wid aids yr) = wid"
  by (simp add: demo_work_def)

lemma coauthor_run:
  "conf_main coauthor_srv cfg1 conf_state0 = Some (Inr (), coauthor_final)"
proof -
  have authors: "iter_authors_conf coauthor_srv cfg conf_author_body st =
      Some (for_each conf_author_body [demo_author ''A1''] (st\<lparr>calls := Suc (calls st)\<rparr>))"
    for st cfg
    unfolding iter_authors_conf_def by (rule single_page_conf) (simp add: coauthor_srv_def)
  have works: "iter_author_works_year coauthor_srv cfg aid yr conf_work_body st =
      Some (for_each conf_work_body [demo_work ''W1'' [''A1'', ''A2''] 2025]
              (st\<lparr>calls := Suc (calls st)\<rparr>))" for aid yr st cfg
    unfolding iter_author_works_year_def by (rule single_page_conf) (simp add: coauthor_srv_def)
  have aid: "a_id (demo_author ''A1'') = ''A1''" by (simp add: demo_author_def)
  show ?thesis
    by (simp add: conf_main_def authors works conf_state0_def conf_author_body_def
          demo_author_upsert commit_conf_def print_def cfg1_def conf_work_body_def
          demo_work_upsert demo_work_facts demo_work_id aid insert_or_ignore_fact_def
          fact_key_def demo_fact_def coauthor_final_def coauthor_db_def Let_def)
qed

lemma demo_authorships_links:
  "attach_authorships_loop cfg wid
       (map (\<lambda>a. \<lparr>au_author = Some \<lparr>ref_id = Some a\<rparr>, au_author_position = None,
                    au_institutions = []\<rparr>) aids) rows =
     foldl (\<lambda>rows a. if a = [] then rows
                      else insert_or_ignore_authorship (demo_link wid a) rows) rows aids"
  by (induction aids arbitrary: rows) (simp_all add: truthy_def or_str_def demo_link_def)

lemma demo_work_links:
  "attach_authorships cfg wid' (demo_work wid aids yr) d =
     d\<lparr>authorships_2025 :=
         foldl (\<lambda>rows a. if a = [] then rows
                          else insert_or_ignore_authorship (demo_link wid' a) rows)
           (authorships_2025 d) aids\<rparr>"
proof -
  have a: "w_authorships (demo_work wid aids yr) =
       map (\<lambda>a. \<lparr>au_author = Some \<lparr>ref_id = Some a\<rparr>, au_author_position = None,
                    au_institutions = []\<rparr>) aids"
    by (simp add: demo_work_def)
  show ?thesis unfolding attach_authorships_def a by (simp add: demo_authorships_links)
qed

lemma demo_work_upsert_nust:
  "upsert_work_nust (demo_work wid aids yr) d =
     d\<lparr>works_2025 := (works_2025 d)(wid \<mapsto>
        \<lparr>w5_title = Some ''a title'', w5_publication_year = Some yr, w5_doi = None\<rparr>)\<rparr>"
  by (simp add: upsert_work_nust_def demo_work_def)

lemma demo_work_no_topics:
  "attach_work_topics srv wid' (demo_work wid aids yr) st = (Inr (), st)"
  by (simp add: attach_work_topics_def demo_work_def)

lemma coauthor_nust_run:
  "nust_main coauthor_srv cfg1 (\<lambda>tbl. [''A1'']) nust_state0 = Some (Inr (), coauthor_nust_final)"
proof -
  have authors: "iter_authors_nust coauthor_srv cfg nust_author_body st =
      Some (for_each nust_author_body [demo_author ''A1''] (st\<lparr>calls := Suc (calls st)\<rparr>))"
    for st cfg
    unfolding iter_authors_nust_def by (rule single_page_nust) (simp add: coauthor_srv_def)
  have works: "iter_author_works_2025 coauthor_srv cfg aid body st =
      Some (for_each body [demo_work ''W1'' [''A1'', ''A2''] 2025]
              (st\<lparr>calls := Suc (calls st)\<rparr>))" for aid st cfg body
    unfolding iter_author_works_2025_def by (rule single_page_nust) (simp add: coauthor_srv_def)
  show ?thesis
    by (simp add: nust_main_def authors works nust_state0_def nust_author_body_def
          demo_author_upsert commit_nust_def print_def nust_work_body_def
          demo_work_upsert_nust demo_work_links demo_work_id demo_work_no_topics
          insert_or_ignore_authorship_def demo_link_def coauthor_nust_final_def
          coauthor_nust_db_def Let_def)
qed

text \<open>
  The claim as stated, that every fact row names an author that is in the authors
  table, fails: the run on \<open>coauthor_srv\<close> ends normally with a committed fact row for
  the co-author \<open>A2\<close>, who is not in the authors table.
\<close>

theorem author_reference_counterexample:
  "conf_main coauthor_srv cfg1 conf_state0 = Some (Inr (), coauthor_final)
   \<and> ''A2'' \<in> f_author_id ` set (fact_authorships_works (committed coauthor_final))
   \<and> ''A2'' \<notin> dom (authors (committed coauthor_final))"
  by (simp add: coauthor_run) (simp add: coauthor_final_def coauthor_db_def demo_fact_def)

theorem fact_rows_reference_stored_works_witness:
  "facts_ok (db coauthor_final) \<and> facts_ok (committed coauthor_final)
   \<and> links_ok (ndb coauthor_nust_final) \<and> links_ok (ncommitted coauthor_nust_final)"
proof -
  have a: "facts_ok (committed conf_state0)" by (simp add: facts_ok_def conf_state0_def)
  have b: "links_ok (ncommitted nust_state0)" by (simp add: links_ok_def nust_state0_def)
  from fact_rows_reference_stored_works
    [of coauthor_srv cfg1 conf_state0 "Inr ()" coauthor_final "\<lambda>tbl. [''A1'']" nust_state0
        "Inr ()" coauthor_nust_final]
    coauthor_run coauthor_nust_run a b
  show ?thesis by simp
qed










































































end
